theory Spec2Isabelle
  imports Complex_Main "HOL-Library.Char_ord" "HOL-Library.List_Lexorder"
begin

section \<open>Strings\<close>

text \<open>
  Go strings are byte sequences; they are modelled as \<open>string\<close> (a list of 8-bit
  characters). The helpers below are the functions of Go's \<open>strings\<close> package that the
  modelled code calls.
\<close>

definition HasPrefix :: "string \<Rightarrow> string \<Rightarrow> bool" where
  "HasPrefix s pre = (take (length pre) s = pre)"

definition HasSuffix :: "string \<Rightarrow> string \<Rightarrow> bool" where
  "HasSuffix s suf = (length suf \<le> length s \<and> drop (length s - length suf) s = suf)"

definition TrimPrefix :: "string \<Rightarrow> string \<Rightarrow> string" where
  "TrimPrefix s pre = (if HasPrefix s pre then drop (length pre) s else s)"

definition TrimSuffix :: "string \<Rightarrow> string \<Rightarrow> string" where
  "TrimSuffix s suf = (if HasSuffix s suf then take (length s - length suf) s else s)"

definition backslash :: char where
  "backslash = CHR 0x5C"

definition slash :: char where
  "slash = CHR 0x2F"

text \<open>\<open>strings.ReplaceAll(path, "\\", "/")\<close>: both arguments are one byte long.\<close>

definition ReplaceAll_backslash :: "string \<Rightarrow> string" where
  "ReplaceAll_backslash s = map (\<lambda>c. if c = backslash then slash else c) s"

section \<open>Path normalization (pkg/correlation/file\_index.go, normalizePath)\<close>

text \<open>
  The function is the same in both copies of the file index source
  (src/pkg/correlation/file\_index.go and src/unnamed/part\_009): replace back-slashes,
  trim one leading \<open>./\<close>, trim one trailing \<open>/\<close>.
\<close>

definition normalizePath :: "string \<Rightarrow> string" where
  "normalizePath path =
     (let p1 = ReplaceAll_backslash path;
          p2 = TrimPrefix p1 ''./'';
          p3 = TrimSuffix p2 ''/''
      in p3)"

section \<open>Ranking normalizers (pkg/search/normalizers.go)\<close>




text \<open>
  Time. A \<open>time.Time\<close> is modelled as the number of nanoseconds since Go's zero time
  (January 1, year 1, 00:00:00 UTC), so \<open>IsZero\<close> is equality with 0. A
  \<open>time.Duration\<close> is an \<open>int64\<close> count of nanoseconds; \<open>Time.Sub\<close> saturates at
  the bounds of \<open>int64\<close>, as Go's does. \<open>time.Since(t)\<close> reads the clock: the
  current instant is an explicit argument \<open>now\<close>.
\<close>

type_synonym time = int
type_synonym duration = int


definition maxDuration :: duration where
  "maxDuration = 2 ^ 63 - 1"

definition minDuration :: duration where
  "minDuration = - (2 ^ 63)"

definition Sub :: "time \<Rightarrow> time \<Rightarrow> duration" where
  "Sub t u = (if t - u > maxDuration then maxDuration
              else if t - u < minDuration then minDuration
              else t - u)"

definition After :: "time \<Rightarrow> time \<Rightarrow> bool" where
  "After t u = (t > u)"

definition Hour :: duration where
  "Hour = 3600 * 1000000000"

definition Hours :: "duration \<Rightarrow> real" where
  "Hours d = real_of_int d / real_of_int Hour"



section \<open>Issues and dependencies (package model)\<close>

text \<open>
  The declarations of package \<open>model\<close> are not among the sources; the records carry the
  fields that the analysed code reads. \<open>model.Status\<close> and
  \<open>model.DependencyType\<close> are string types.
\<close>

record Dependency =
  DependsOnID :: string
  Type :: string

record Issue =
  ID :: string
  Title :: string
  Status :: string
  Priority :: int
  Dependencies :: "Dependency list"

text \<open>
  Modelled from the spec: the constants \<open>model.StatusClosed\<close> and
  \<open>model.DepBlocks\<close>, whose declarations are missing. The spec names the status
  "closed" and the "blocking" dependency type; no result below depends on the two
  literals.
\<close>

definition StatusClosed :: string where
  "StatusClosed = ''closed''"

definition DepBlocks :: string where
  "DepBlocks = ''blocks''"

section \<open>The graph library (gonum simple.DirectedGraph)\<close>

text \<open>
  The dependency graph is a \<open>simple.DirectedGraph\<close> of the gonum library, which is
  not part of the repository. It is modelled by its documented contract: nodes carry
  \<open>int64\<close> identifiers, \<open>NewNode\<close> returns an identifier that is not in the graph,
  \<open>AddNode\<close> panics on an identifier collision, \<open>SetEdge\<close> panics when both ends
  are the same node and otherwise stores one edge per ordered pair (a second
  \<open>SetEdge\<close> of the same pair replaces the first). \<open>To\<close> and \<open>From\<close> yield the
  neighbours in an unspecified order; the model lists them in edge insertion order and
  the results below hold for every order unless they say otherwise.
\<close>

type_synonym node = int

record DirectedGraph =
  g_nodes :: "node list"
  g_edges :: "(node \<times> node) list"

datatype panic =
  Panic_self_edge
  | Panic_node_collision
  | Panic_nil_node
  | Panic_slice_bounds

definition NewDirectedGraph :: DirectedGraph where
  "NewDirectedGraph = \<lparr>g_nodes = [], g_edges = []\<rparr>"

definition NewNode :: "DirectedGraph \<Rightarrow> node" where
  "NewNode g = (if g_nodes g = [] then 0 else Max (set (g_nodes g)) + 1)"

definition AddNode :: "DirectedGraph \<Rightarrow> node \<Rightarrow> panic + DirectedGraph" where
  "AddNode g n =
     (if n \<in> set (g_nodes g) then Inl Panic_node_collision
      else Inr (g\<lparr>g_nodes := g_nodes g @ [n]\<rparr>))"

definition SetEdge :: "DirectedGraph \<Rightarrow> node \<Rightarrow> node \<Rightarrow> panic + DirectedGraph" where
  "SetEdge g u v =
     (if u = v then Inl Panic_self_edge
      else
        let ns1 = (if u \<in> set (g_nodes g) then g_nodes g else g_nodes g @ [u]);
            ns2 = (if v \<in> set ns1 then ns1 else ns1 @ [v])
        in Inr (g\<lparr>g_nodes := ns2,
                  g_edges := (if (u, v) \<in> set (g_edges g) then g_edges g
                              else g_edges g @ [(u, v)])\<rparr>))"

definition To :: "DirectedGraph \<Rightarrow> node \<Rightarrow> node list" where
  "To g n = map fst (filter (\<lambda>e. snd e = n) (g_edges g))"


section \<open>Building the analyzer (pkg/analysis/graph.go, NewAnalyzer)\<close>

record Analyzer =
  an_g :: DirectedGraph
  idToNode :: "string \<rightharpoonup> node"
  nodeToID :: "node \<rightharpoonup> string"
  issueMap :: "string \<rightharpoonup> Issue"

text \<open>Loop 1 of \<open>NewAnalyzer\<close>: one fresh node per issue of the input, in input order.\<close>

fun addNodes :: "Issue list \<Rightarrow> Analyzer \<Rightarrow> panic + Analyzer" where
  "addNodes [] a = Inr a"
| "addNodes (issue # issues) a =
     (let n = NewNode (an_g a) in
      case AddNode (an_g a) n of
        Inl e \<Rightarrow> Inl e
      | Inr g' \<Rightarrow>
          addNodes issues
            (a\<lparr>an_g := g',
               idToNode := (idToNode a)(ID issue \<mapsto> n),
               nodeToID := (nodeToID a)(n \<mapsto> ID issue),
               issueMap := (issueMap a)(ID issue \<mapsto> issue)\<rparr>))"

text \<open>
  Loop 2, inner: the dependencies of one issue \<open>u\<close>. A target that is no key of
  \<open>idToNode\<close> is skipped; every other dependency, whatever its type, is handed to
  \<open>SetEdge\<close>. There is no test for \<open>u = v\<close> and no counter of rejected edges.
\<close>

fun addDeps :: "(string \<rightharpoonup> node) \<Rightarrow> node \<Rightarrow> Dependency list \<Rightarrow> DirectedGraph
    \<Rightarrow> panic + DirectedGraph" where
  "addDeps i2n u [] g = Inr g"
| "addDeps i2n u (dep # deps) g =
     (case i2n (DependsOnID dep) of
        None \<Rightarrow> addDeps i2n u deps g
      | Some v \<Rightarrow>
          (case SetEdge g u v of
             Inl e \<Rightarrow> Inl e
           | Inr g' \<Rightarrow> addDeps i2n u deps g'))"

fun addEdges :: "(string \<rightharpoonup> node) \<Rightarrow> Issue list \<Rightarrow> DirectedGraph \<Rightarrow> panic + DirectedGraph" where
  "addEdges i2n [] g = Inr g"
| "addEdges i2n (issue # issues) g =
     (case i2n (ID issue) of
        None \<Rightarrow> addEdges i2n issues g
      | Some u \<Rightarrow>
          (case addDeps i2n u (Dependencies issue) g of
             Inl e \<Rightarrow> Inl e
           | Inr g' \<Rightarrow> addEdges i2n issues g'))"

definition emptyAnalyzer :: Analyzer where
  "emptyAnalyzer =
     \<lparr>an_g = NewDirectedGraph, idToNode = Map.empty, nodeToID = Map.empty,
      issueMap = Map.empty\<rparr>"

definition NewAnalyzer :: "Issue list \<Rightarrow> panic + Analyzer" where
  "NewAnalyzer issues =
     (case addNodes issues emptyAnalyzer of
        Inl e \<Rightarrow> Inl e
      | Inr a \<Rightarrow>
          (case addEdges (idToNode a) issues (an_g a) of
             Inl e \<Rightarrow> Inl e
           | Inr g' \<Rightarrow> Inr (a\<lparr>an_g := g'\<rparr>)))"

section \<open>Execution plan (src/unnamed/part\_010, computeUnblocks)\<close>

text \<open>
  The inner loop over the dependencies of one issue. The state is the pair
  \<open>(wouldBeBlocked, hasThisBlocker)\<close>; \<open>break\<close> returns the state at once.
\<close>

fun scanDeps :: "(string \<rightharpoonup> Issue) \<Rightarrow> string \<Rightarrow> Dependency list \<Rightarrow> bool \<times> bool
    \<Rightarrow> bool \<times> bool" where
  "scanDeps im issueID [] st = st"
| "scanDeps im issueID (dep # deps) (wouldBeBlocked, hasThisBlocker) =
     (if Type dep \<noteq> DepBlocks then scanDeps im issueID deps (wouldBeBlocked, hasThisBlocker)
      else if DependsOnID dep = issueID then scanDeps im issueID deps (wouldBeBlocked, True)
      else
        (case im (DependsOnID dep) of
           Some blocker \<Rightarrow>
             (if Status blocker \<noteq> StatusClosed then (True, hasThisBlocker)
              else scanDeps im issueID deps (wouldBeBlocked, hasThisBlocker))
         | None \<Rightarrow> scanDeps im issueID deps (wouldBeBlocked, hasThisBlocker)))"

text \<open>
  The outer loop ranges over the values of the map \<open>issueMap\<close>, in the order in which
  Go happens to iterate it. That order is the argument \<open>keys\<close>: a listing of the keys
  of the map.
\<close>

fun unblocksLoop :: "(string \<rightharpoonup> Issue) \<Rightarrow> string \<Rightarrow> string list \<Rightarrow> string list
    \<Rightarrow> string list" where
  "unblocksLoop im issueID [] unblocks = unblocks"
| "unblocksLoop im issueID (k # ks) unblocks =
     (case im k of
        None \<Rightarrow> unblocksLoop im issueID ks unblocks
      | Some issue \<Rightarrow>
          (if Status issue = StatusClosed then unblocksLoop im issueID ks unblocks
           else
             let (wouldBeBlocked, hasThisBlocker) =
                   scanDeps im issueID (Dependencies issue) (False, False)
             in if hasThisBlocker \<and> \<not> wouldBeBlocked
                then unblocksLoop im issueID ks (unblocks @ [ID issue])
                else unblocksLoop im issueID ks unblocks))"

text \<open>\<open>sort.Strings\<close> orders strings bytewise, which is the order of \<open>char list\<close>.\<close>

definition computeUnblocks :: "Analyzer \<Rightarrow> string list \<Rightarrow> string \<Rightarrow> string list" where
  "computeUnblocks a keys issueID = sort (unblocksLoop (issueMap a) issueID keys [])"

section \<open>Specification vocabulary for the execution plan\<close>

text \<open>
  The words of the claim about \<open>computeUnblocks\<close>: a dependency is a blocking
  dependency on the given issue; a dependency is another open blocker when it is a
  blocking dependency on a different issue that exists in the issue map and is not
  closed; an issue would be unblocked when it is not closed, has the first kind of
  dependency and none of the second.
\<close>

definition otherOpenBlocker :: "(string \<rightharpoonup> Issue) \<Rightarrow> string \<Rightarrow> Dependency \<Rightarrow> bool" where
  "otherOpenBlocker im issueID d =
     (Type d = DepBlocks \<and> DependsOnID d \<noteq> issueID \<and>
      (\<exists>b. im (DependsOnID d) = Some b \<and> Status b \<noteq> StatusClosed))"

definition blocksOn :: "string \<Rightarrow> Dependency \<Rightarrow> bool" where
  "blocksOn issueID d = (Type d = DepBlocks \<and> DependsOnID d = issueID)"

definition wouldUnblock :: "(string \<rightharpoonup> Issue) \<Rightarrow> string \<Rightarrow> Issue \<Rightarrow> bool" where
  "wouldUnblock im X i =
     (Status i \<noteq> StatusClosed \<and>
      (\<exists>d\<in>set (Dependencies i). blocksOn X d) \<and>
      \<not> (\<exists>d\<in>set (Dependencies i). otherOpenBlocker im X d))"

section \<open>Invariant of the analyzer\<close>

text \<open>
  What the first loop of \<open>NewAnalyzer\<close> establishes: every identifier maps to a node
  of the graph, different identifiers to different nodes, the issue map is keyed by the
  identifier of the issue it stores, and \<open>nodeToID\<close> inverts \<open>idToNode\<close>.
\<close>

definition analyzer_inv :: "Analyzer \<Rightarrow> bool" where
  "analyzer_inv a =
     (ran (idToNode a) \<subseteq> set (g_nodes (an_g a)) \<and>
      inj_on (idToNode a) (dom (idToNode a)) \<and>
      dom (issueMap a) = dom (idToNode a) \<and>
      (\<forall>k i. issueMap a k = Some i \<longrightarrow> ID i = k) \<and>
      (\<forall>k n. idToNode a k = Some n \<longrightarrow> nodeToID a n = Some k) \<and> 
      dom (nodeToID a) = set (g_nodes (an_g a)) \<and>
      distinct (g_nodes (an_g a)))"

section \<open>Example inputs\<close>

text \<open>
  Concrete inputs at which the hypotheses of the theorems are discharged.
\<close>

definition ex_A :: Issue where
  "ex_A = \<lparr>ID = ''A'', Title = ''first'', Status = ''open'', Priority = 2, Dependencies = []\<rparr>"
definition ex_B :: Issue where
  "ex_B = \<lparr>ID = ''B'', Title = ''second'', Status = ''open'', Priority = 2,
            Dependencies = [\<lparr>DependsOnID = ''A'', Type = DepBlocks\<rparr>]\<rparr>"
definition ex_C :: Issue where
  "ex_C = \<lparr>ID = ''C'', Title = ''third'', Status = ''open'', Priority = 1,
            Dependencies = [\<lparr>DependsOnID = ''A'', Type = DepBlocks\<rparr>,
                            \<lparr>DependsOnID = ''B'', Type = DepBlocks\<rparr>,
                            \<lparr>DependsOnID = ''Z'', Type = DepBlocks\<rparr>]\<rparr>"

definition ex_analyzer :: Analyzer where
  "ex_analyzer =
     \<lparr>an_g = \<lparr>g_nodes = [0, 1, 2], g_edges = [(1, 0), (2, 0), (2, 1)]\<rparr>,
      idToNode = [''A'' \<mapsto> 0, ''B'' \<mapsto> 1, ''C'' \<mapsto> 2],
      nodeToID = [0 \<mapsto> ''A'', 1 \<mapsto> ''B'', 2 \<mapsto> ''C''],
      issueMap = [''A'' \<mapsto> ex_A, ''B'' \<mapsto> ex_B, ''C'' \<mapsto> ex_C]\<rparr>"

section \<open>Critical-path heights (pkg/analysis/graph.go, computeHeights and Analyze)\<close>





text \<open>
  The inner loop over \<open>a.g.To(nid)\<close>. Heights are \<open>float64\<close> values that are sums of
  \<open>1.0\<close>, exact in floating point below \<open>2^53\<close>; they are modelled as reals.
\<close>

fun maxParentHeight :: "(node \<rightharpoonup> real) \<Rightarrow> node list \<Rightarrow> real \<Rightarrow> real" where
  "maxParentHeight heights [] m = m"
| "maxParentHeight heights (p # ps) m =
     (case heights p of
        Some h \<Rightarrow> maxParentHeight heights ps (if h > m then h else m)
      | None \<Rightarrow> maxParentHeight heights ps m)"








section \<open>Example inputs for the critical-path scores\<close>






section \<open>Eigenvector centrality (pkg/analysis/graph.go, computeEigenvector)\<close>

text \<open>
  The argument \<open>nodeList\<close> is the slice that the first loop collects from
  \<open>g.Nodes()\<close>, in whatever order the iterator yields the nodes. Scores are
  \<open>float64\<close> values, modelled as reals. \<open>index[id]\<close> reads 0 for a missing key. All
  slice indices that occur are positions of \<open>nodeList\<close>, hence in range.
\<close>

fun indexLoop :: "node list \<Rightarrow> nat \<Rightarrow> (node \<rightharpoonup> nat) \<Rightarrow> (node \<rightharpoonup> nat)" where
  "indexLoop [] i index = index"
| "indexLoop (n # ns) i index = indexLoop ns (Suc i) (index(n \<mapsto> i))"

definition index_get :: "(node \<rightharpoonup> nat) \<Rightarrow> node \<Rightarrow> nat" where
  "index_get index n = (case index n of Some i \<Rightarrow> i | None \<Rightarrow> 0)"

text \<open>The loop over \<open>incoming\<close>: \<open>work[i] += vec[j]\<close>.\<close>

fun incomingLoop :: "(node \<rightharpoonup> nat) \<Rightarrow> real list \<Rightarrow> nat \<Rightarrow> node list \<Rightarrow> real list \<Rightarrow> real list" where
  "incomingLoop index vec i [] work = work"
| "incomingLoop index vec i (p # ps) work =
     (let j = index_get index p
      in incomingLoop index vec i ps (work[i := work ! i + vec ! j]))"

fun workLoop :: "DirectedGraph \<Rightarrow> (node \<rightharpoonup> nat) \<Rightarrow> real list \<Rightarrow> node list \<Rightarrow> real list
    \<Rightarrow> real list" where
  "workLoop g index vec [] work = work"
| "workLoop g index vec (n # ns) work =
     workLoop g index vec ns (incomingLoop index vec (index_get index n) (To g n) work)"

text \<open>
  The power iteration; the first argument counts the iterations that remain. Each
  iteration clears \<open>work\<close>, fills it, and leaves the loop when the sum of squares is
  zero, before \<open>vec\<close> is overwritten.
\<close>

fun powerIteration :: "nat \<Rightarrow> DirectedGraph \<Rightarrow> (node \<rightharpoonup> nat) \<Rightarrow> node list \<Rightarrow> real list
    \<Rightarrow> real list" where
  "powerIteration 0 g index nodeList vec = vec"
| "powerIteration (Suc k) g index nodeList vec =
     (let work = workLoop g index vec nodeList (replicate (length vec) 0);
          sum = fold (\<lambda>v s. s + v * v) work 0
      in if sum = 0 then vec
         else
           let norm = 1 / sqrt sum
           in powerIteration k g index nodeList (map (\<lambda>w. w * norm) work))"

definition iterations :: nat where
  "iterations = 50"

fun resLoop :: "node list \<Rightarrow> nat \<Rightarrow> real list \<Rightarrow> (node \<rightharpoonup> real) \<Rightarrow> (node \<rightharpoonup> real)" where
  "resLoop [] i vec res = res"
| "resLoop (n # ns) i vec res = resLoop ns (Suc i) vec (res(n \<mapsto> vec ! i))"

text \<open>The result \<open>None\<close> is the \<open>nil\<close> map returned for a graph without nodes.\<close>

definition computeEigenvector :: "DirectedGraph \<Rightarrow> node list \<Rightarrow> (node \<rightharpoonup> real) option" where
  "computeEigenvector g nodeList =
     (let n = length nodeList in
      if n = 0 then None
      else
        let vec = replicate n (1.0 / real n);
            index = indexLoop nodeList 0 Map.empty;
            vec' = powerIteration iterations g index nodeList vec
        in Some (resLoop nodeList 0 vec' Map.empty))"

definition ex_edgeless :: DirectedGraph where
  "ex_edgeless = \<lparr>g_nodes = [0, 1, 2, 3], g_edges = []\<rparr>"

section \<open>History reports (package correlation)\<close>

text \<open>
  The declarations of \<open>HistoryReport\<close>, \<open>BeadHistory\<close>, \<open>CorrelatedCommit\<close> and
  \<open>FileChange\<close> are not among the sources; the records carry the fields that the file
  index code reads and that its tests fill in. A \<open>nil\<close> report is \<open>None\<close>.
\<close>

record FileChange =
  Path :: string
  Insertions :: int
  Deletions :: int

record CorrelatedCommit =
  SHA :: string
  ShortSHA :: string
  Timestamp :: time
  Files :: "FileChange list"

record BeadHistory =
  hist_BeadID :: string
  hist_Title :: string
  hist_Status :: string
  Commits :: "CorrelatedCommit list"

record HistoryReport =
  Histories :: "string \<rightharpoonup> BeadHistory"
  CommitIndex :: "string \<rightharpoonup> string list"

section \<open>Co-change matrix (src/unnamed/part\_009, BuildCoChangeMatrix)\<close>

record CoChangeMatrix =
  Matrix :: "string \<rightharpoonup> (string \<rightharpoonup> int)"
  FileCommitCounts :: "string \<rightharpoonup> int"
  CommitFiles :: "string \<rightharpoonup> string list"

text \<open>
  Reading an \<open>int\<close> from a Go map gives 0 for a missing key, and reading through a
  missing (nil) row gives 0 as well.
\<close>

definition count_get :: "(string \<rightharpoonup> int) \<Rightarrow> string \<Rightarrow> int" where
  "count_get m k = (case m k of Some c \<Rightarrow> c | None \<Rightarrow> 0)"

definition matrix_get :: "(string \<rightharpoonup> (string \<rightharpoonup> int)) \<Rightarrow> string \<Rightarrow> string \<Rightarrow> int" where
  "matrix_get M a b = (case M a of Some row \<Rightarrow> count_get row b | None \<Rightarrow> 0)"

text \<open>\<open>matrix.Matrix[fileA][fileB]++\<close>, after the row has been created when missing.\<close>

definition matrix_inc :: "(string \<rightharpoonup> (string \<rightharpoonup> int)) \<Rightarrow> string \<Rightarrow> string
    \<Rightarrow> (string \<rightharpoonup> (string \<rightharpoonup> int))" where
  "matrix_inc M fileA fileB =
     (let row = (case M fileA of Some r \<Rightarrow> r | None \<Rightarrow> Map.empty)
      in M(fileA \<mapsto> row(fileB \<mapsto> count_get row fileB + 1)))"

text \<open>The normalized, non-empty paths of one commit, in order, duplicates kept.\<close>

fun commitFileList :: "FileChange list \<Rightarrow> string list" where
  "commitFileList [] = []"
| "commitFileList (fc # fcs) =
     (let normalized = normalizePath (Path fc)
      in if normalized \<noteq> [] then normalized # commitFileList fcs else commitFileList fcs)"

fun countLoop :: "string list \<Rightarrow> (string \<rightharpoonup> int) \<Rightarrow> (string \<rightharpoonup> int)" where
  "countLoop [] counts = counts"
| "countLoop (f # fs) counts = countLoop fs (counts(f \<mapsto> count_get counts f + 1))"

text \<open>The two nested index loops over the files of one commit.\<close>

fun pairInner :: "string list \<Rightarrow> nat \<Rightarrow> nat list \<Rightarrow> (string \<rightharpoonup> (string \<rightharpoonup> int))
    \<Rightarrow> (string \<rightharpoonup> (string \<rightharpoonup> int))" where
  "pairInner fs i [] M = M"
| "pairInner fs i (j # js) M =
     (if i = j then pairInner fs i js M
      else pairInner fs i js (matrix_inc M (fs ! i) (fs ! j)))"

fun pairOuter :: "string list \<Rightarrow> nat list \<Rightarrow> (string \<rightharpoonup> (string \<rightharpoonup> int))
    \<Rightarrow> (string \<rightharpoonup> (string \<rightharpoonup> int))" where
  "pairOuter fs [] M = M"
| "pairOuter fs (i # is) M = pairOuter fs is (pairInner fs i [0..<length fs] M)"

text \<open>
  The loop over the commits of one history. The state is the matrix and the set
  \<open>processedCommits\<close>.
\<close>

fun commitLoop :: "CorrelatedCommit list \<Rightarrow> CoChangeMatrix \<times> string set
    \<Rightarrow> CoChangeMatrix \<times> string set" where
  "commitLoop [] st = st"
| "commitLoop (commit # commits) (matrix, processedCommits) =
     (if SHA commit \<in> processedCommits then commitLoop commits (matrix, processedCommits)
      else
        let fs = commitFileList (Files commit);
            matrix' = matrix\<lparr>
              Matrix := pairOuter fs [0..<length fs] (Matrix matrix),
              FileCommitCounts := countLoop fs (FileCommitCounts matrix),
              CommitFiles := (CommitFiles matrix)(ShortSHA commit \<mapsto> fs)\<rparr>
        in commitLoop commits (matrix', insert (SHA commit) processedCommits))"

text \<open>
  The loop over \<open>report.Histories\<close>; \<open>keys\<close> is the order in which Go iterates the
  map.
\<close>

fun historyLoop :: "(string \<rightharpoonup> BeadHistory) \<Rightarrow> string list \<Rightarrow> CoChangeMatrix \<times> string set
    \<Rightarrow> CoChangeMatrix \<times> string set" where
  "historyLoop hs [] st = st"
| "historyLoop hs (k # ks) st =
     (case hs k of
        None \<Rightarrow> historyLoop hs ks st
      | Some history \<Rightarrow> historyLoop hs ks (commitLoop (Commits history) st))"

definition emptyCoChangeMatrix :: CoChangeMatrix where
  "emptyCoChangeMatrix =
     \<lparr>Matrix = Map.empty, FileCommitCounts = Map.empty, CommitFiles = Map.empty\<rparr>"

definition BuildCoChangeMatrix :: "HistoryReport option \<Rightarrow> string list \<Rightarrow> CoChangeMatrix" where
  "BuildCoChangeMatrix report keys =
     (case report of
        None \<Rightarrow> emptyCoChangeMatrix
      | Some r \<Rightarrow> fst (historyLoop (Histories r) keys (emptyCoChangeMatrix, {})))"

text \<open>
  The two properties of a co-change matrix: it is symmetric, and the entry of two
  different files is at most the commit count of either file.
\<close>

definition coChange_symmetric :: "CoChangeMatrix \<Rightarrow> bool" where
  "coChange_symmetric m = (\<forall>a b. matrix_get (Matrix m) a b = matrix_get (Matrix m) b a)"

definition coChange_bounded :: "CoChangeMatrix \<Rightarrow> bool" where
  "coChange_bounded m =
     (\<forall>a b. a \<noteq> b \<longrightarrow>
        matrix_get (Matrix m) a b
          \<le> min (count_get (FileCommitCounts m) a) (count_get (FileCommitCounts m) b))"

definition ex_dup_commit :: CorrelatedCommit where
  "ex_dup_commit =
     \<lparr>SHA = ''c1'', ShortSHA = ''c1'', Timestamp = 1000,
      Files = [\<lparr>Path = ''x.go'', Insertions = 1, Deletions = 0\<rparr>,
               \<lparr>Path = ''./x.go'', Insertions = 1, Deletions = 0\<rparr>,
               \<lparr>Path = ''y.go'', Insertions = 1, Deletions = 0\<rparr>]\<rparr>"

definition ex_dup_report :: HistoryReport where
  "ex_dup_report =
     \<lparr>Histories = [''bv-1'' \<mapsto>
        \<lparr>hist_BeadID = ''bv-1'', hist_Title = ''t'', hist_Status = ''open'',
         Commits = [ex_dup_commit]\<rparr>],
      CommitIndex = [''c1'' \<mapsto> [''bv-1'']]\<rparr>"

section \<open>More string functions\<close>

text \<open>
  \<open>strings.TrimSpace\<close> and \<open>strings.ToLower\<close>, for ASCII: the white space bytes are
  tab, line feed, vertical tab, form feed, carriage return and space, and the letters
  \<open>A\<close> to \<open>Z\<close> are mapped to \<open>a\<close> to \<open>z\<close>. (Go also treats some non-ASCII code
  points as space or as upper case; bytes above 127 are left alone here.)
\<close>

definition isSpace :: "char \<Rightarrow> bool" where
  "isSpace c = (of_char c \<in> {9, 10, 11, 12, 13, 32 :: nat})"

definition TrimSpace :: "string \<Rightarrow> string" where
  "TrimSpace s = rev (dropWhile isSpace (rev (dropWhile isSpace s)))"

definition toLowerChar :: "char \<Rightarrow> char" where
  "toLowerChar c =
     (let n = (of_char c :: nat) in if 65 \<le> n \<and> n \<le> 90 then char_of (n + 32) else c)"

definition ToLower :: "string \<Rightarrow> string" where
  "ToLower s = map toLowerChar s"

fun Join :: "string list \<Rightarrow> string \<Rightarrow> string" where
  "Join [] sep = []"
| "Join [x] sep = x"
| "Join (x # y # ys) sep = x @ sep @ Join (y # ys) sep"

text \<open>The verb \<open>%d\<close> of \<open>fmt.Sprintf\<close>.\<close>

function decimal :: "nat \<Rightarrow> string" where
  "decimal n = (if n < 10 then [char_of (48 + n)] else decimal (n div 10) @ [char_of (48 + n mod 10)])"
  by pat_completeness auto
termination
  by (relation "measure id") auto

definition Sprintf_d :: "int \<Rightarrow> string" where
  "Sprintf_d n = (if n < 0 then CHR ''-'' # decimal (nat (- n)) else decimal (nat n))"

section \<open>Sorting slices\<close>

text \<open>
  \<open>sort.Slice(xs, less)\<close>. Go does not fix the relative order of elements of which
  neither is less than the other; the model is the insertion sort that keeps their
  order. The results below use only that the sorted slice has the same elements.
\<close>

fun insertBy :: "('a \<Rightarrow> 'a \<Rightarrow> bool) \<Rightarrow> 'a \<Rightarrow> 'a list \<Rightarrow> 'a list" where
  "insertBy lt x [] = [x]"
| "insertBy lt x (y # ys) = (if lt y x then y # insertBy lt x ys else x # y # ys)"

definition sortSlice :: "('a \<Rightarrow> 'a \<Rightarrow> bool) \<Rightarrow> 'a list \<Rightarrow> 'a list" where
  "sortSlice lt xs = foldr (insertBy lt) xs []"

section \<open>File index (pkg/correlation/file\_index.go and src/unnamed/part\_009)\<close>

text \<open>
  The sources hold two copies of the file index code. The functions of
  src/pkg/correlation/file\_index.go keep their names; the functions of
  src/unnamed/part\_009 that differ carry the suffix \<open>_part009\<close>. The record
  \<open>FileLookup\<close> has the field \<open>coChange\<close> of part\_009, which the other copy lacks
  and never reads.
\<close>

record BeadReference =
  BeadID :: string
  ref_Title :: string
  ref_Status :: string
  CommitSHAs :: "string list"
  LastTouch :: time
  TotalChanges :: int

record FileIndexStats =
  TotalFiles :: int
  TotalBeadLinks :: int
  FilesWithMultipleBeads :: int

record FileBeadIndex =
  FileToBeads :: "string \<rightharpoonup> BeadReference list"
  Stats :: FileIndexStats

record FileBeadLookupResult =
  FilePath :: string
  OpenBeads :: "BeadReference list"
  ClosedBeads :: "BeadReference list"
  TotalBeads :: int

record FileLookup =
  fl_index :: FileBeadIndex
  fl_beads :: "string \<rightharpoonup> BeadHistory"
  fl_coChange :: CoChangeMatrix

text \<open>\<open>NewFileLookup(nil)\<close>: the lookup over an empty index.\<close>

definition NewFileLookup_nil :: FileLookup where
  "NewFileLookup_nil =
     \<lparr>fl_index = \<lparr>FileToBeads = Map.empty,
                   Stats = \<lparr>TotalFiles = 0, TotalBeadLinks = 0, FilesWithMultipleBeads = 0\<rparr>\<rparr>,
      fl_beads = Map.empty,
      fl_coChange = BuildCoChangeMatrix None []\<rparr>"

subsection \<open>LookupByFile of src/pkg/correlation/file\_index.go\<close>

text \<open>"Get current status from beads map": the reference with status and title refreshed.\<close>

definition refreshRef :: "(string \<rightharpoonup> BeadHistory) \<Rightarrow> BeadReference \<Rightarrow> BeadReference" where
  "refreshRef bs ref =
     (case bs (BeadID ref) of
        Some history \<Rightarrow> ref\<lparr>ref_Status := hist_Status history, ref_Title := hist_Title history\<rparr>
      | None \<Rightarrow> ref)"

fun containsBeadRef :: "BeadReference list \<Rightarrow> string \<Rightarrow> bool" where
  "containsBeadRef [] beadID = False"
| "containsBeadRef (ref # refs) beadID =
     (if BeadID ref = beadID then True else containsBeadRef refs beadID)"

fun exactLoop :: "(string \<rightharpoonup> BeadHistory) \<Rightarrow> BeadReference list \<Rightarrow> FileBeadLookupResult
    \<Rightarrow> FileBeadLookupResult" where
  "exactLoop bs [] result = result"
| "exactLoop bs (ref0 # refs) result =
     (let ref = refreshRef bs ref0 in
      if ref_Status ref = ''closed''
      then exactLoop bs refs (result\<lparr>ClosedBeads := ClosedBeads result @ [ref]\<rparr>)
      else exactLoop bs refs (result\<lparr>OpenBeads := OpenBeads result @ [ref]\<rparr>))"

fun prefixRefsLoop :: "(string \<rightharpoonup> BeadHistory) \<Rightarrow> BeadReference list \<Rightarrow> FileBeadLookupResult
    \<Rightarrow> FileBeadLookupResult" where
  "prefixRefsLoop bs [] result = result"
| "prefixRefsLoop bs (ref0 # refs) result =
     (let ref = refreshRef bs ref0 in
      if ref_Status ref = ''closed''
      then
        (if \<not> containsBeadRef (ClosedBeads result) (BeadID ref)
         then prefixRefsLoop bs refs (result\<lparr>ClosedBeads := ClosedBeads result @ [ref]\<rparr>)
         else prefixRefsLoop bs refs result)
      else
        (if \<not> containsBeadRef (OpenBeads result) (BeadID ref)
         then prefixRefsLoop bs refs (result\<lparr>OpenBeads := OpenBeads result @ [ref]\<rparr>)
         else prefixRefsLoop bs refs result))"

text \<open>
  The loop over the map \<open>FileToBeads\<close>; \<open>keys\<close> is the order in which Go iterates
  it.
\<close>

fun prefixLoop :: "FileLookup \<Rightarrow> string \<Rightarrow> string list \<Rightarrow> FileBeadLookupResult
    \<Rightarrow> FileBeadLookupResult" where
  "prefixLoop fl normalizedPath [] result = result"
| "prefixLoop fl normalizedPath (filePath # ks) result =
     (case FileToBeads (fl_index fl) filePath of
        None \<Rightarrow> prefixLoop fl normalizedPath ks result
      | Some refs \<Rightarrow>
          (if HasPrefix filePath (normalizedPath @ ''/'')
           then prefixLoop fl normalizedPath ks (prefixRefsLoop (fl_beads fl) refs result)
           else prefixLoop fl normalizedPath ks result))"

definition LookupByFile :: "FileLookup \<Rightarrow> string list \<Rightarrow> string \<Rightarrow> FileBeadLookupResult" where
  "LookupByFile fl keys path =
     (let normalizedPath = normalizePath path;
          result = \<lparr>FilePath = path, OpenBeads = [], ClosedBeads = [], TotalBeads = 0\<rparr>
      in case FileToBeads (fl_index fl) normalizedPath of
           Some refs \<Rightarrow>
             (let result1 = exactLoop (fl_beads fl) refs result
              in result1\<lparr>TotalBeads := int (length refs)\<rparr>)
         | None \<Rightarrow>
             (let result1 = prefixLoop fl normalizedPath keys result
              in result1\<lparr>TotalBeads :=
                   int (length (OpenBeads result1)) + int (length (ClosedBeads result1))\<rparr>))"

subsection \<open>LookupByFile of src/unnamed/part\_009\<close>

text \<open>The result is the pair \<open>(bucket, skip)\<close>.\<close>

definition classifyBeadStatus :: "string \<Rightarrow> string \<times> bool" where
  "classifyBeadStatus status =
     (let normalized = ToLower (TrimSpace status) in
      if normalized = ''tombstone'' then ([], True)
      else if normalized = ''closed'' then (''closed'', False)
      else (''open'', False))"

definition sortBeadRefs :: "BeadReference list \<Rightarrow> BeadReference list" where
  "sortBeadRefs refs =
     sortSlice (\<lambda>ri rj. if LastTouch ri = LastTouch rj then BeadID ri < BeadID rj
                         else After (LastTouch ri) (LastTouch rj)) refs"

fun exactLoop_part009 :: "(string \<rightharpoonup> BeadHistory) \<Rightarrow> BeadReference list
    \<Rightarrow> FileBeadLookupResult \<Rightarrow> FileBeadLookupResult" where
  "exactLoop_part009 bs [] result = result"
| "exactLoop_part009 bs (ref0 # refs) result =
     (let ref = refreshRef bs ref0;
          status = ref_Status ref
      in case classifyBeadStatus status of
           (bucket, skip) \<Rightarrow>
             if skip then exactLoop_part009 bs refs result
             else if bucket = ''closed''
             then exactLoop_part009 bs refs (result\<lparr>ClosedBeads := ClosedBeads result @ [ref]\<rparr>)
             else exactLoop_part009 bs refs (result\<lparr>OpenBeads := OpenBeads result @ [ref]\<rparr>))"

fun prefixRefsLoop_part009 :: "(string \<rightharpoonup> BeadHistory) \<Rightarrow> BeadReference list
    \<Rightarrow> FileBeadLookupResult \<Rightarrow> FileBeadLookupResult" where
  "prefixRefsLoop_part009 bs [] result = result"
| "prefixRefsLoop_part009 bs (ref0 # refs) result =
     (let ref = refreshRef bs ref0;
          status = ref_Status ref
      in case classifyBeadStatus status of
           (bucket, skip) \<Rightarrow>
             if skip then prefixRefsLoop_part009 bs refs result
             else if bucket = ''closed''
             then
               (if \<not> containsBeadRef (ClosedBeads result) (BeadID ref)
                then prefixRefsLoop_part009 bs refs
                       (result\<lparr>ClosedBeads := ClosedBeads result @ [ref]\<rparr>)
                else prefixRefsLoop_part009 bs refs result)
             else
               (if \<not> containsBeadRef (OpenBeads result) (BeadID ref)
                then prefixRefsLoop_part009 bs refs
                       (result\<lparr>OpenBeads := OpenBeads result @ [ref]\<rparr>)
                else prefixRefsLoop_part009 bs refs result))"

fun prefixLoop_part009 :: "FileLookup \<Rightarrow> string \<Rightarrow> string list \<Rightarrow> FileBeadLookupResult
    \<Rightarrow> FileBeadLookupResult" where
  "prefixLoop_part009 fl normalizedPath [] result = result"
| "prefixLoop_part009 fl normalizedPath (filePath # ks) result =
     (case FileToBeads (fl_index fl) filePath of
        None \<Rightarrow> prefixLoop_part009 fl normalizedPath ks result
      | Some refs \<Rightarrow>
          (if HasPrefix filePath (normalizedPath @ ''/'')
           then prefixLoop_part009 fl normalizedPath ks
                  (prefixRefsLoop_part009 (fl_beads fl) refs result)
           else prefixLoop_part009 fl normalizedPath ks result))"

definition finishLookup_part009 :: "FileBeadLookupResult \<Rightarrow> FileBeadLookupResult" where
  "finishLookup_part009 result =
     (let openRefs = sortBeadRefs (OpenBeads result);
          closedRefs = sortBeadRefs (ClosedBeads result)
      in result\<lparr>OpenBeads := openRefs, ClosedBeads := closedRefs,
                 TotalBeads := int (length openRefs) + int (length closedRefs)\<rparr>)"

definition LookupByFile_part009 :: "FileLookup \<Rightarrow> string list \<Rightarrow> string \<Rightarrow> FileBeadLookupResult" where
  "LookupByFile_part009 fl keys path =
     (let normalizedPath = normalizePath path;
          result = \<lparr>FilePath = path, OpenBeads = [], ClosedBeads = [], TotalBeads = 0\<rparr>
      in case FileToBeads (fl_index fl) normalizedPath of
           Some refs \<Rightarrow> finishLookup_part009 (exactLoop_part009 (fl_beads fl) refs result)
         | None \<Rightarrow> finishLookup_part009 (prefixLoop_part009 fl normalizedPath keys result))"

section \<open>Impact analysis (ImpactAnalysis in both copies of the file index)\<close>

record AffectedBead =
  ab_BeadID :: string
  ab_Title :: string
  ab_Status :: string
  OverlapFiles :: "string list"
  OverlapCount :: int
  LastActivity :: time
  Relevance :: real
  ab_TotalChanges :: int

record ImpactResult =
  res_Files :: "string list"
  AffectedBeads :: "AffectedBead list"
  RiskLevel :: string
  RiskScore :: real
  Warnings :: "string list"
  Summary :: string

text \<open>
  \<open>beadMap\<close> is a Go map from bead identifiers to pointers. It is modelled as an
  association list in insertion order; the later loop over the map visits the entries in
  that order (Go leaves the order open, and the slice is sorted afterwards).
\<close>

type_synonym beadMap = "(string \<times> AffectedBead) list"

fun beadMap_put :: "beadMap \<Rightarrow> string \<Rightarrow> AffectedBead \<Rightarrow> beadMap" where
  "beadMap_put [] k v = [(k, v)]"
| "beadMap_put ((k', v') # m) k v =
     (if k' = k then (k, v) # m else (k', v') # beadMap_put m k v)"

text \<open>
  The body shared by the loops over \<open>lookup.OpenBeads\<close> and \<open>lookup.ClosedBeads\<close>:
  fetch or create the entry of the bead, then update it through the pointer.
\<close>

definition touchBead :: "beadMap \<Rightarrow> BeadReference \<Rightarrow> string \<Rightarrow> beadMap" where
  "touchBead bm ref filePath =
     (let ab = (case map_of bm (BeadID ref) of
                  Some ab0 \<Rightarrow> ab0
                | None \<Rightarrow>
                    \<lparr>ab_BeadID = BeadID ref, ab_Title = ref_Title ref,
                     ab_Status = ref_Status ref, OverlapFiles = [], OverlapCount = 0,
                     LastActivity = LastTouch ref, Relevance = 0, ab_TotalChanges = 0\<rparr>);
          overlap = OverlapFiles ab @ [filePath]
      in beadMap_put bm (BeadID ref)
           (ab\<lparr>OverlapFiles := overlap,
               OverlapCount := int (length overlap),
               ab_TotalChanges := ab_TotalChanges ab + TotalChanges ref,
               LastActivity := (if After (LastTouch ref) (LastActivity ab)
                                then LastTouch ref else LastActivity ab)\<rparr>))"

fun openBeadsLoop :: "BeadReference list \<Rightarrow> string \<Rightarrow> beadMap \<Rightarrow> beadMap" where
  "openBeadsLoop [] filePath bm = bm"
| "openBeadsLoop (ref # refs) filePath bm = openBeadsLoop refs filePath (touchBead bm ref filePath)"

fun closedBeadsLoop :: "time \<Rightarrow> BeadReference list \<Rightarrow> string \<Rightarrow> beadMap \<Rightarrow> beadMap" where
  "closedBeadsLoop now [] filePath bm = bm"
| "closedBeadsLoop now (ref # refs) filePath bm =
     (if Sub now (LastTouch ref) > 7 * 24 * Hour then closedBeadsLoop now refs filePath bm
      else closedBeadsLoop now refs filePath (touchBead bm ref filePath))"

text \<open>The loop over \<open>normalizedFiles\<close>; \<open>lookup\<close> is \<open>fl.LookupByFile\<close>.\<close>

fun filesLoop :: "(string \<Rightarrow> FileBeadLookupResult) \<Rightarrow> time \<Rightarrow> string list \<Rightarrow> beadMap
    \<Rightarrow> beadMap" where
  "filesLoop lookup now [] bm = bm"
| "filesLoop lookup now (filePath # fs) bm =
     (let r = lookup filePath;
          bm1 = openBeadsLoop (OpenBeads r) filePath bm;
          bm2 = closedBeadsLoop now (ClosedBeads r) filePath bm1
      in filesLoop lookup now fs bm2)"

text \<open>
  The loop over \<open>beadMap\<close> that scores each bead. The state is
  \<open>(result.AffectedBeads, openCount, inProgressCount, recentClosedCount)\<close>; \<open>n\<close> is
  the divisor of the overlap ratio.
\<close>

fun scoreLoop :: "time \<Rightarrow> int \<Rightarrow> AffectedBead list
    \<Rightarrow> AffectedBead list \<times> int \<times> int \<times> int \<Rightarrow> AffectedBead list \<times> int \<times> int \<times> int" where
  "scoreLoop now n [] st = st"
| "scoreLoop now n (ab # rest) (acc, openCount, inProgressCount, recentClosedCount) =
     (let daysSince = Hours (Sub now (LastActivity ab)) / 24;
          recencyScore0 = 1.0 - (daysSince / 7.0);
          recencyScore = (if recencyScore0 < 0 then 0 else recencyScore0);
          overlapScore = real_of_int (OverlapCount ab) / real_of_int n
      in if ab_Status ab = ''in_progress''
         then scoreLoop now n rest
                (acc @ [ab\<lparr>Relevance := recencyScore * 0.4 + overlapScore * 0.4 + 1.0 * 0.2\<rparr>],
                 openCount, inProgressCount + 1, recentClosedCount)
         else if ab_Status ab = ''open''
         then scoreLoop now n rest
                (acc @ [ab\<lparr>Relevance := recencyScore * 0.4 + overlapScore * 0.4 + 0.8 * 0.2\<rparr>],
                 openCount + 1, inProgressCount, recentClosedCount)
         else scoreLoop now n rest
                (acc @ [ab\<lparr>Relevance := recencyScore * 0.4 + overlapScore * 0.4 + 0.5 * 0.2\<rparr>],
                 openCount, inProgressCount, recentClosedCount + 1))"

text \<open>The map literal \<open>statusPriority\<close> reads 0 for a status that is not a key.\<close>

definition statusPriority :: "string \<Rightarrow> int" where
  "statusPriority s =
     (if s = ''in_progress'' then 0 else if s = ''open'' then 1
      else if s = ''closed'' then 2 else 0)"

definition lessAffected :: "AffectedBead \<Rightarrow> AffectedBead \<Rightarrow> bool" where
  "lessAffected bi bj =
     (let p_i = statusPriority (ab_Status bi); p_j = statusPriority (ab_Status bj)
      in if p_i \<noteq> p_j then p_i < p_j else Relevance bi > Relevance bj)"

text \<open>The risk score; \<open>n\<close> is the number of files compared with 3.\<close>

definition riskScore :: "int \<Rightarrow> int \<Rightarrow> int \<Rightarrow> int \<Rightarrow> real" where
  "riskScore inProgressCount openCount recentClosedCount n =
     (let s0 = real_of_int inProgressCount * 0.4 + real_of_int openCount * 0.2
               + real_of_int recentClosedCount * 0.05;
          s1 = (if n > 3 then s0 + 0.1 else s0)
      in if s1 > 1.0 then 1.0 else s1)"

definition riskLevel :: "real \<Rightarrow> string" where
  "riskLevel score =
     (if score \<ge> 0.7 then ''critical''
      else if score \<ge> 0.4 then ''high''
      else if score \<ge> 0.2 then ''medium''
      else ''low'')"

definition impactWarnings :: "int \<Rightarrow> int \<Rightarrow> string list" where
  "impactWarnings inProgressCount openCount =
     (if inProgressCount > 0
      then [''Active work in progress on these files - coordinate before making changes'']
      else [])
     @ (if openCount > 0
        then [''Open beads touch these files - review before modifying'']
        else [])"

text \<open>The warning sign and variation selector of the summary prefix, in UTF-8.\<close>

definition conflictPrefix :: string where
  "conflictPrefix =
     [CHR 0xE2, CHR 0x9A, CHR 0xA0, CHR 0xEF, CHR 0xB8, CHR 0x8F] @ '' Conflict risk: ''"

definition pluralize :: "int \<Rightarrow> string \<Rightarrow> string" where
  "pluralize count singular = (if count = 1 then singular else singular @ ''s'')"

text \<open>
  The summary line. The two copies differ in the wording of the parts: \<open>bead(s)\<close> in
  file\_index.go, \<open>pluralize\<close> in part\_009; \<open>word\<close> is that wording.
\<close>

definition impactSummary :: "(int \<Rightarrow> string) \<Rightarrow> int \<Rightarrow> int \<Rightarrow> int \<Rightarrow> string" where
  "impactSummary word inProgressCount openCount recentClosedCount =
     (let total = inProgressCount + openCount + recentClosedCount in
      if total = 0 then ''No beads found touching these files - safe to proceed''
      else
        let parts =
              (if inProgressCount > 0
               then [Sprintf_d inProgressCount @ '' '' @ word inProgressCount @ '' in progress'']
               else [])
              @ (if openCount > 0
                 then [Sprintf_d openCount @ '' open '' @ word openCount]
                 else [])
              @ (if recentClosedCount > 0
                 then [Sprintf_d recentClosedCount @ '' recently closed '' @ word recentClosedCount]
                 else []);
            prefix = (if inProgressCount > 0 then conflictPrefix else ''Found '')
        in prefix @ Join parts '', '' @ '' touching these files'')"

text \<open>
  Everything after the loop over the files: scoring, sorting, risk, warnings, summary.
  \<open>n\<close> is the file count that the copy uses (see the two callers).
\<close>

definition finishImpact :: "(int \<Rightarrow> string) \<Rightarrow> time \<Rightarrow> int \<Rightarrow> beadMap \<Rightarrow> ImpactResult
    \<Rightarrow> ImpactResult" where
  "finishImpact word now n bm result =
     (case scoreLoop now n (map snd bm) ([], 0, 0, 0) of
        (scored, openCount, inProgressCount, recentClosedCount) \<Rightarrow>
          let score = riskScore inProgressCount openCount recentClosedCount n
          in result\<lparr>AffectedBeads := sortSlice lessAffected scored,
                     RiskScore := score,
                     RiskLevel := riskLevel score,
                     Warnings := impactWarnings inProgressCount openCount,
                     Summary := impactSummary word inProgressCount openCount
                                  recentClosedCount\<rparr>)"

text \<open>
  The file list is reported as given; the paths are normalized one by one, nothing is
  dropped or deduplicated, and \<open>len(files)\<close> is the file count.
\<close>

definition ImpactAnalysis :: "FileLookup \<Rightarrow> string list \<Rightarrow> time \<Rightarrow> string list \<Rightarrow> ImpactResult" where
  "ImpactAnalysis fl keys now files =
     (let result = \<lparr>res_Files = files, AffectedBeads = [], RiskLevel = ''low'',
                    RiskScore = 0.0, Warnings = [], Summary = []\<rparr>
      in if length files = 0 then result\<lparr>Summary := ''No files to analyze''\<rparr>
         else
           let normalizedFiles = map normalizePath files;
               bm = filesLoop (LookupByFile fl keys) now normalizedFiles []
           in finishImpact (\<lambda>c. ''bead(s)'') now (int (length files)) bm result)"

text \<open>The loop that normalizes, filters and deduplicates; \<open>seen\<close> is the set of kept paths.\<close>

fun normalizeFilesLoop :: "string list \<Rightarrow> string set \<Rightarrow> string list \<Rightarrow> string list" where
  "normalizeFilesLoop [] seen normalizedFiles = normalizedFiles"
| "normalizeFilesLoop (f # fs) seen normalizedFiles =
     (let norm = TrimSpace (normalizePath f) in
      if norm = [] then normalizeFilesLoop fs seen normalizedFiles
      else if norm \<notin> seen then normalizeFilesLoop fs (insert norm seen) (normalizedFiles @ [norm])
      else normalizeFilesLoop fs seen normalizedFiles)"

definition ImpactAnalysis_part009 :: "FileLookup \<Rightarrow> string list \<Rightarrow> time \<Rightarrow> string list
    \<Rightarrow> ImpactResult" where
  "ImpactAnalysis_part009 fl keys now files =
     (let result = \<lparr>res_Files = [], AffectedBeads = [], RiskLevel = ''low'',
                    RiskScore = 0.0, Warnings = [], Summary = []\<rparr>
      in if length files = 0 then result\<lparr>Summary := ''No files to analyze''\<rparr>
         else
           let normalizedFiles = normalizeFilesLoop files {} []
           in if length normalizedFiles = 0
              then result\<lparr>Summary := ''No valid files to analyze''\<rparr>
              else
                let bm = filesLoop (LookupByFile_part009 fl keys) now normalizedFiles []
                in finishImpact (\<lambda>c. pluralize c ''bead'') now (int (length normalizedFiles)) bm
                     (result\<lparr>res_Files := normalizedFiles\<rparr>))"

section \<open>Example inputs for the file index\<close>

definition ex_history :: "string \<Rightarrow> string \<Rightarrow> BeadHistory" where
  "ex_history b st = \<lparr>hist_BeadID = b, hist_Title = ''title of '' @ b, hist_Status = st, Commits = []\<rparr>"

definition ex_ref :: "string \<Rightarrow> string \<Rightarrow> time \<Rightarrow> BeadReference" where
  "ex_ref b st t =
     \<lparr>BeadID = b, ref_Title = ''title of '' @ b, ref_Status = st, CommitSHAs = [''c1''],
      LastTouch = t, TotalChanges = 15\<rparr>"

text \<open>
  A lookup over one file touched by an in-progress bead I1, an open bead I2, a bead I3
  closed long ago and a tombstone bead T.
\<close>

definition ex_lookup :: FileLookup where
  "ex_lookup =
     \<lparr>fl_index =
        \<lparr>FileToBeads = [''auth/token.go'' \<mapsto>
            [ex_ref ''I2'' ''open'' 5000, ex_ref ''I1'' ''in_progress'' 4000,
             ex_ref ''T'' ''tombstone'' 3000, ex_ref ''I3'' ''closed'' 0]],
         Stats = \<lparr>TotalFiles = 1, TotalBeadLinks = 4, FilesWithMultipleBeads = 1\<rparr>\<rparr>,
      fl_beads = [''I1'' \<mapsto> ex_history ''I1'' ''in_progress'', ''I2'' \<mapsto> ex_history ''I2'' ''open'',
                  ''I3'' \<mapsto> ex_history ''I3'' ''closed'', ''T'' \<mapsto> ex_history ''T'' ''tombstone''],
      fl_coChange = BuildCoChangeMatrix None []\<rparr>"





section \<open>Approximate betweenness (pkg/analysis/betweenness\_approx.go)\<close>

text \<open>
  Three things come from outside the repository and are parameters of the model:
  \<open>network.Betweenness\<close> of gonum (the exact scores), and the random generator of
  \<open>math/rand\<close>, as its constructor \<open>rand.New(rand.NewSource(seed))\<close> and its method
  \<open>Intn\<close>, which returns a number and the next generator state. The order in which
  \<open>g.Nodes()\<close> yields the nodes is the argument \<open>nodeOrder\<close>. Scores are
  \<open>float64\<close> values, modelled as reals. The field \<open>Elapsed\<close> of the result reads the
  clock and is left out.
\<close>

datatype BetweennessMode = BetweennessExact | BetweennessApproximate | BetweennessSkip


















section \<open>Example inputs for the approximate betweenness\<close>







section \<open>Path normalization: results\<close>

lemma backslash_notin_ReplaceAll: "backslash \<notin> set (ReplaceAll_backslash p)"
  by (auto simp: ReplaceAll_backslash_def backslash_def slash_def)

lemma TrimPrefix_decomp: "s = (if HasPrefix s pre then pre else []) @ TrimPrefix s pre"
  by (auto simp: TrimPrefix_def HasPrefix_def) (metis append_take_drop_id)

lemma TrimSuffix_decomp: "s = TrimSuffix s suf @ (if HasSuffix s suf then suf else [])"
  by (auto simp: TrimSuffix_def HasSuffix_def) (metis append_take_drop_id)

lemmas normalizePath_eval =
  normalizePath_def ReplaceAll_backslash_def TrimPrefix_def TrimSuffix_def
  HasPrefix_def HasSuffix_def backslash_def slash_def

text \<open>
  C8, as stated, fails: nothing in \<open>normalizePath\<close> collapses repeated separators. The
  path \<open>a//b\<close> is returned unchanged and differs from the normal form of \<open>a/b\<close>.
\<close>

theorem normalizePath_counterexample:
  "normalizePath ''a//b'' = ''a//b'' \<and> normalizePath ''a/b'' = ''a/b'' \<and>
   normalizePath ''a//b'' \<noteq> normalizePath ''a/b''"
  by (simp add: normalizePath_eval)

text \<open>
  C8 (amended). For every raw path, \<open>normalizePath\<close> converts every back-slash to a
  forward slash, then strips one leading \<open>./\<close> if there is one, then strips one
  trailing \<open>/\<close> if there is one, and changes nothing else: the result has no
  back-slash, and the converted path is the result with exactly the stripped prefix and
  suffix put back. Repeated separators are kept.
\<close>

theorem normalizePath_spec:
  "backslash \<notin> set (normalizePath p) \<and>
   ReplaceAll_backslash p =
     (if HasPrefix (ReplaceAll_backslash p) ''./'' then ''./'' else [])
     @ normalizePath p
     @ (if HasSuffix (TrimPrefix (ReplaceAll_backslash p) ''./'') ''/'' then ''/'' else [])"
proof -
  let ?q = "ReplaceAll_backslash p"
  let ?r = "TrimPrefix ?q ''./''"
  have n: "normalizePath p = TrimSuffix ?r ''/''"
    by (simp add: normalizePath_def)
  have d1: "?q = (if HasPrefix ?q ''./'' then ''./'' else []) @ ?r"
    by (rule TrimPrefix_decomp)
  have d2: "?r = normalizePath p @ (if HasSuffix ?r ''/'' then ''/'' else [])"
    unfolding n by (rule TrimSuffix_decomp)
  have "set (normalizePath p) \<subseteq> set ?q"
    using d1 d2 by (metis Un_upper1 Un_upper2 set_append subset_trans)
  then have "backslash \<notin> set (normalizePath p)"
    using backslash_notin_ReplaceAll[of p] by blast
  moreover have "?q = (if HasPrefix ?q ''./'' then ''./'' else []) @ normalizePath p
     @ (if HasSuffix ?r ''/'' then ''/'' else [])"
    using d1 d2 by simp
  ultimately show ?thesis by blast
qed

theorem normalizePath_spec_witness:
  "backslash \<notin> set (normalizePath (''.'' @ [backslash] @ ''pkg'' @ [backslash] @ ''a//b/'')) \<and>
   normalizePath (''.'' @ [backslash] @ ''pkg'' @ [backslash] @ ''a//b/'') = ''pkg/a//b''"
  using normalizePath_spec [of "''.'' @ [backslash] @ ''pkg'' @ [backslash] @ ''a//b/''"]
  by (simp add: normalizePath_eval)

section \<open>Ranking normalizers: results\<close>




section \<open>Execution plan: results\<close>

lemma scanDeps_spec:
  "scanDeps im X deps (wb, hb) = (wb', hb') \<Longrightarrow>
     (wb' \<longleftrightarrow> wb \<or> (\<exists>d\<in>set deps. otherOpenBlocker im X d)) \<and>
     (\<not> wb' \<longrightarrow> (hb' \<longleftrightarrow> hb \<or> (\<exists>d\<in>set deps. blocksOn X d)))"
proof (induction im X deps "(wb, hb)" arbitrary: wb hb rule: scanDeps.induct)
  case (1 im issueID st)
  then show ?case by simp
next
  case (2 im issueID dep deps wouldBeBlocked hasThisBlocker)
  then show ?case
    by (auto simp: otherOpenBlocker_def blocksOn_def split: if_splits option.splits)
qed

lemma scanDeps_wouldUnblock:
  "Status i \<noteq> StatusClosed \<Longrightarrow> scanDeps im X (Dependencies i) (False, False) = (wb, hb) \<Longrightarrow>
     (hb \<and> \<not> wb) = wouldUnblock im X i"
  using scanDeps_spec[of im X "Dependencies i" False False wb hb]
  by (auto simp: wouldUnblock_def)

lemma unblocksLoop_eq:
  "unblocksLoop im X ks acc =
     acc @ map ID (filter (wouldUnblock im X) (List.map_filter im ks))"
proof (induction ks arbitrary: acc)
  case Nil
  then show ?case by (simp add: List.map_filter_simps)
next
  case (Cons k ks)
  show ?case
  proof (cases "im k")
    case None
    then show ?thesis using Cons by (simp add: List.map_filter_simps)
  next
    case (Some i)
    show ?thesis
    proof (cases "Status i = StatusClosed")
      case True
      then show ?thesis using Some Cons by (simp add: List.map_filter_simps wouldUnblock_def)
    next
      case False
      obtain wb hb where s: "scanDeps im X (Dependencies i) (False, False) = (wb, hb)"
        by (cases "scanDeps im X (Dependencies i) (False, False)")
      from scanDeps_wouldUnblock[OF False s] show ?thesis
        using Some Cons False s by (auto simp add: List.map_filter_simps)
    qed
  qed
qed

section \<open>Graph builder: results\<close>

lemma NewNode_fresh: "NewNode g \<notin> set (g_nodes g)"
proof (cases "g_nodes g = []")
  case True
  then show ?thesis by (simp add: NewNode_def)
next
  case False
  have "Max (set (g_nodes g)) + 1 \<notin> set (g_nodes g)"
  proof
    assume "Max (set (g_nodes g)) + 1 \<in> set (g_nodes g)"
    then have "Max (set (g_nodes g)) + 1 \<le> Max (set (g_nodes g))"
      by (intro Max_ge) auto
    then show False by simp
  qed
  with False show ?thesis by (simp add: NewNode_def)
qed

lemma analyzer_inv_empty: "analyzer_inv emptyAnalyzer"
  by (simp add: analyzer_inv_def emptyAnalyzer_def NewDirectedGraph_def)

lemma inj_on_map_upd_fresh:
  assumes "inj_on m (dom m)" "n \<notin> ran m"
  shows "inj_on (m(k \<mapsto> n)) (dom (m(k \<mapsto> n)))"
  unfolding inj_on_def
proof (intro ballI impI)
  fix x y
  assume x: "x \<in> dom (m(k \<mapsto> n))" and y: "y \<in> dom (m(k \<mapsto> n))"
    and e: "(m(k \<mapsto> n)) x = (m(k \<mapsto> n)) y"
  show "x = y"
  proof (cases "x = k")
    case True
    then have "(m(k \<mapsto> n)) y = Some n" using e by simp
    then show ?thesis using assms(2) True by (auto simp: ran_def split: if_splits)
  next
    case False
    then have mx: "(m(k \<mapsto> n)) x = m x" by simp
    show ?thesis
    proof (cases "y = k")
      case True
      then have "m x = Some n" using e mx by simp
      then show ?thesis using assms(2) by (auto simp: ran_def)
    next
      case False
      with \<open>x \<noteq> k\<close> e x y assms(1) show ?thesis
        by (auto simp: inj_on_def dom_def)
    qed
  qed
qed

lemma addNodes_step_inv:
  assumes "analyzer_inv a" and n: "n \<notin> set (g_nodes (an_g a))"
  shows "analyzer_inv (a\<lparr>an_g := (an_g a)\<lparr>g_nodes := g_nodes (an_g a) @ [n]\<rparr>,
               idToNode := (idToNode a)(ID issue \<mapsto> n),
               nodeToID := (nodeToID a)(n \<mapsto> ID issue),
               issueMap := (issueMap a)(ID issue \<mapsto> issue)\<rparr>)"
proof -
  have nr: "n \<notin> ran (idToNode a)" using assms by (auto simp: analyzer_inv_def)
  have inj: "inj_on ((idToNode a)(ID issue \<mapsto> n)) (dom ((idToNode a)(ID issue \<mapsto> n)))"
    using assms nr by (intro inj_on_map_upd_fresh) (auto simp: analyzer_inv_def)
  have r: "ran ((idToNode a)(ID issue \<mapsto> n)) \<subseteq> set (g_nodes (an_g a) @ [n])"
    using assms by (auto simp: analyzer_inv_def ran_def split: if_splits)
  have bk: "\<forall>k m. ((idToNode a)(ID issue \<mapsto> n)) k = Some m \<longrightarrow> ((nodeToID a)(n \<mapsto> ID issue)) m = Some k"
    using assms nr by (auto simp: analyzer_inv_def ran_def)
  show ?thesis
    using assms inj r bk unfolding analyzer_inv_def by simp
qed

lemma addNodes_spec:
  "analyzer_inv a \<Longrightarrow>
   \<exists>a'. addNodes issues a = Inr a' \<and> analyzer_inv a' \<and>
        dom (idToNode a') = dom (idToNode a) \<union> ID ` set issues \<and>
        g_edges (an_g a') = g_edges (an_g a) \<and>
        length (g_nodes (an_g a')) = length (g_nodes (an_g a)) + length issues \<and>
        ran (issueMap a') \<subseteq> ran (issueMap a) \<union> set issues"
proof (induction issues arbitrary: a)
  case Nil
  then show ?case by simp
next
  case (Cons issue issues)
  let ?n = "NewNode (an_g a)"
  let ?a1 = "a\<lparr>an_g := (an_g a)\<lparr>g_nodes := g_nodes (an_g a) @ [?n]\<rparr>,
               idToNode := (idToNode a)(ID issue \<mapsto> ?n),
               nodeToID := (nodeToID a)(?n \<mapsto> ID issue),
               issueMap := (issueMap a)(ID issue \<mapsto> issue)\<rparr>"
  have fresh: "?n \<notin> set (g_nodes (an_g a))" by (rule NewNode_fresh)
  have inv1: "analyzer_inv ?a1" using Cons.prems fresh by (rule addNodes_step_inv)
  from Cons.IH[OF inv1] obtain a' where
    a': "addNodes issues ?a1 = Inr a'" "analyzer_inv a'"
      "dom (idToNode a') = dom (idToNode ?a1) \<union> ID ` set issues"
      "g_edges (an_g a') = g_edges (an_g ?a1)"
      "length (g_nodes (an_g a')) = length (g_nodes (an_g ?a1)) + length issues"
      "ran (issueMap a') \<subseteq> ran (issueMap ?a1) \<union> set issues"
    by blast
  have step: "addNodes (issue # issues) a = addNodes issues ?a1"
    using fresh by (simp add: AddNode_def Let_def)
  have "ran (issueMap ?a1) \<subseteq> ran (issueMap a) \<union> {issue}"
    by (auto simp: ran_def split: if_splits)
  with a' step show ?case by (auto)
qed

lemma SetEdge_ok:
  "u \<noteq> v \<Longrightarrow> u \<in> set (g_nodes g) \<Longrightarrow> v \<in> set (g_nodes g) \<Longrightarrow>
   \<exists>g'. SetEdge g u v = Inr g' \<and> g_nodes g' = g_nodes g \<and>
        set (g_edges g') = insert (u, v) (set (g_edges g)) \<and>
        (distinct (g_edges g) \<longrightarrow> distinct (g_edges g'))"
  by (auto simp: SetEdge_def Let_def)

lemma addDeps_spec:
  assumes "inj_on i2n (dom i2n)" "ran i2n \<subseteq> set (g_nodes g)" "i2n k = Some u"
    and "\<forall>d\<in>set deps. DependsOnID d \<noteq> k"
  shows "\<exists>g'. addDeps i2n u deps g = Inr g' \<and> g_nodes g' = g_nodes g \<and>
           set (g_edges g') =
             set (g_edges g) \<union> {(u, v) | v d. d \<in> set deps \<and> i2n (DependsOnID d) = Some v}"
  using assms
proof (induction deps arbitrary: g)
  case Nil
  then show ?case by simp
next
  case (Cons dep deps)
  show ?case
  proof (cases "i2n (DependsOnID dep)")
    case None
    from Cons.IH[of g] Cons.prems obtain g' where
      "addDeps i2n u deps g = Inr g'" "g_nodes g' = g_nodes g"
      "set (g_edges g') =
         set (g_edges g) \<union> {(u, v) | v d. d \<in> set deps \<and> i2n (DependsOnID d) = Some v}"
      by auto
    with None show ?thesis by auto
  next
    case (Some v)
    have ne: "u \<noteq> v"
    proof
      assume "u = v"
      then have "i2n k = i2n (DependsOnID dep)" using Some Cons.prems(3) by simp
      then have "k = DependsOnID dep"
        using Cons.prems(1) Some Cons.prems(3) by (auto simp: inj_on_def dom_def)
      then show False using Cons.prems(4) by simp
    qed
    have "u \<in> set (g_nodes g)" "v \<in> set (g_nodes g)"
      using Cons.prems(2,3) Some by (auto simp: ran_def)
    from SetEdge_ok[OF ne this] obtain g1 where
      g1: "SetEdge g u v = Inr g1" "g_nodes g1 = g_nodes g"
        "set (g_edges g1) = insert (u, v) (set (g_edges g))"
      by blast
    from Cons.IH[of g1] Cons.prems g1 obtain g' where
      "addDeps i2n u deps g1 = Inr g'" "g_nodes g' = g_nodes g1"
      "set (g_edges g') =
         set (g_edges g1) \<union> {(u, v) | v d. d \<in> set deps \<and> i2n (DependsOnID d) = Some v}"
      by auto
    with Some g1 show ?thesis by auto
  qed
qed

lemma addEdges_spec:
  assumes "inj_on i2n (dom i2n)" "ran i2n \<subseteq> set (g_nodes g)"
    and "\<forall>i\<in>set issues. \<forall>d\<in>set (Dependencies i). DependsOnID d \<noteq> ID i"
  shows "\<exists>g'. addEdges i2n issues g = Inr g' \<and> g_nodes g' = g_nodes g \<and>
           set (g_edges g') =
             set (g_edges g) \<union>
             {(u, v) | u v i d. i \<in> set issues \<and> d \<in> set (Dependencies i) \<and>
                i2n (ID i) = Some u \<and> i2n (DependsOnID d) = Some v}"
  using assms
proof (induction issues arbitrary: g)
  case Nil
  then show ?case by simp
next
  case (Cons issue issues)
  show ?case
  proof (cases "i2n (ID issue)")
    case None
    from Cons.IH[of g] Cons.prems obtain g' where
      "addEdges i2n issues g = Inr g'" "g_nodes g' = g_nodes g"
      "set (g_edges g') =
             set (g_edges g) \<union>
             {(u, v) | u v i d. i \<in> set issues \<and> d \<in> set (Dependencies i) \<and>
                i2n (ID i) = Some u \<and> i2n (DependsOnID d) = Some v}"
      by auto
    with None show ?thesis by auto
  next
    case (Some u)
    have "\<forall>d\<in>set (Dependencies issue). DependsOnID d \<noteq> ID issue"
      using Cons.prems(3) by simp
    from addDeps_spec[OF Cons.prems(1,2) Some this] obtain g1 where
      g1: "addDeps i2n u (Dependencies issue) g = Inr g1" "g_nodes g1 = g_nodes g"
        "set (g_edges g1) =
           set (g_edges g) \<union>
           {(u, v) | v d. d \<in> set (Dependencies issue) \<and> i2n (DependsOnID d) = Some v}"
      by blast
    from Cons.IH[of g1] Cons.prems g1 obtain g' where
      g': "addEdges i2n issues g1 = Inr g'" "g_nodes g' = g_nodes g1"
      "set (g_edges g') =
             set (g_edges g1) \<union>
             {(u, v) | u v i d. i \<in> set issues \<and> d \<in> set (Dependencies i) \<and>
                i2n (ID i) = Some u \<and> i2n (DependsOnID d) = Some v}"
      by auto
    have "addEdges i2n (issue # issues) g = Inr g'" using Some g1 g' by simp
    moreover have "g_nodes g' = g_nodes g" using g1 g' by simp
    moreover have "set (g_edges g') =
             set (g_edges g) \<union>
             {(u, v) | u v i d. i \<in> set (issue # issues) \<and> d \<in> set (Dependencies i) \<and>
                i2n (ID i) = Some u \<and> i2n (DependsOnID d) = Some v}"
      unfolding g'(3) g1(3) using Some by auto
    ultimately show ?thesis by blast
  qed
qed

lemma addDeps_Inl: "addDeps i2n u deps g = Inl e \<Longrightarrow> e = Panic_self_edge"
  by (induction deps arbitrary: g)
     (auto simp: SetEdge_def Let_def split: option.splits sum.splits if_splits)

lemma addEdges_Inl: "addEdges i2n issues g = Inl e \<Longrightarrow> e = Panic_self_edge"
  by (induction issues arbitrary: g)
     (auto dest: addDeps_Inl split: option.splits sum.splits)

lemma addDeps_self:
  "i2n k = Some u \<Longrightarrow> \<exists>d\<in>set deps. DependsOnID d = k \<Longrightarrow>
   addDeps i2n u deps g = Inl Panic_self_edge"
proof (induction deps arbitrary: g)
  case Nil
  then show ?case by simp
next
  case (Cons dep deps)
  show ?case
  proof (cases "i2n (DependsOnID dep)")
    case None
    then have "DependsOnID dep \<noteq> k" using Cons.prems(1) by auto
    with Cons None show ?thesis by auto
  next
    case (Some v)
    show ?thesis
    proof (cases "u = v")
      case True
      with Some show ?thesis by (simp add: SetEdge_def)
    next
      case False
      then have "DependsOnID dep \<noteq> k" using Cons.prems(1) Some by auto
      then have "\<exists>d\<in>set deps. DependsOnID d = k" using Cons.prems(2) by auto
      from Cons.IH[OF Cons.prems(1) this] Some False show ?thesis
        by (auto simp: SetEdge_def Let_def)
    qed
  qed
qed

lemma addEdges_self:
  "\<forall>i\<in>set issues. i2n (ID i) \<noteq> None \<Longrightarrow>
   \<exists>i\<in>set issues. \<exists>d\<in>set (Dependencies i). DependsOnID d = ID i \<Longrightarrow>
   addEdges i2n issues g = Inl Panic_self_edge"
proof (induction issues arbitrary: g)
  case Nil
  then show ?case by simp
next
  case (Cons issue issues)
  from Cons.prems(1) obtain u where u: "i2n (ID issue) = Some u" by auto
  show ?case
  proof (cases "\<exists>d\<in>set (Dependencies issue). DependsOnID d = ID issue")
    case True
    from addDeps_self[of i2n "ID issue" u "Dependencies issue" g, OF u True] u show ?thesis by simp
  next
    case False
    then have rest: "\<exists>i\<in>set issues. \<exists>d\<in>set (Dependencies i). DependsOnID d = ID i"
      using Cons.prems(2) by auto
    show ?thesis
    proof (cases "addDeps i2n u (Dependencies issue) g")
      case (Inl e)
      with addDeps_Inl[OF Inl] u show ?thesis by simp
    next
      case (Inr g1)
      from Cons.IH[OF _ rest, of g1] Cons.prems(1) u Inr show ?thesis by simp
    qed
  qed
qed

lemma NewAnalyzer_cases:
  obtains a1 where "addNodes issues emptyAnalyzer = Inr a1" "analyzer_inv a1"
    "dom (idToNode a1) = ID ` set issues" "g_edges (an_g a1) = []"
    "length (g_nodes (an_g a1)) = length issues" "ran (issueMap a1) \<subseteq> set issues"
proof -
  from addNodes_spec[OF analyzer_inv_empty, of issues] obtain a1 where
    "addNodes issues emptyAnalyzer = Inr a1" "analyzer_inv a1"
    "dom (idToNode a1) = dom (idToNode emptyAnalyzer) \<union> ID ` set issues"
    "g_edges (an_g a1) = g_edges (an_g emptyAnalyzer)"
    "length (g_nodes (an_g a1)) = length (g_nodes (an_g emptyAnalyzer)) + length issues"
    "ran (issueMap a1) \<subseteq> ran (issueMap emptyAnalyzer) \<union> set issues"
    by blast
  then show ?thesis
    by (intro that[of a1]) (auto simp: emptyAnalyzer_def NewDirectedGraph_def)
qed

lemma NewAnalyzer_self_dependency:
  assumes "\<exists>i\<in>set issues. \<exists>d\<in>set (Dependencies i). DependsOnID d = ID i"
  shows "NewAnalyzer issues = Inl Panic_self_edge"
proof -
  obtain a1 where a1: "addNodes issues emptyAnalyzer = Inr a1"
    "dom (idToNode a1) = ID ` set issues"
    by (rule NewAnalyzer_cases)
  have "\<forall>i\<in>set issues. idToNode a1 (ID i) \<noteq> None" using a1(2) by auto
  from addEdges_self[OF this assms] a1(1) show ?thesis
    by (simp add: NewAnalyzer_def)
qed

lemma NewAnalyzer_Inr:
  assumes "NewAnalyzer issues = Inr a"
  shows "analyzer_inv a \<and> dom (idToNode a) = ID ` set issues \<and>
         length (g_nodes (an_g a)) = length issues \<and> ran (issueMap a) \<subseteq> set issues \<and>
         set (g_edges (an_g a)) =
           {(u, v) | u v i d. i \<in> set issues \<and> d \<in> set (Dependencies i) \<and>
              idToNode a (ID i) = Some u \<and> idToNode a (DependsOnID d) = Some v}"
proof -
  obtain a1 where a1: "addNodes issues emptyAnalyzer = Inr a1" "analyzer_inv a1"
    "dom (idToNode a1) = ID ` set issues" "g_edges (an_g a1) = []"
    "length (g_nodes (an_g a1)) = length issues" "ran (issueMap a1) \<subseteq> set issues"
    by (rule NewAnalyzer_cases)
  have noself: "\<forall>i\<in>set issues. \<forall>d\<in>set (Dependencies i). DependsOnID d \<noteq> ID i"
    using NewAnalyzer_self_dependency[of issues] assms by auto
  have inj: "inj_on (idToNode a1) (dom (idToNode a1))"
    and rn: "ran (idToNode a1) \<subseteq> set (g_nodes (an_g a1))"
    using a1(2) by (auto simp: analyzer_inv_def)
  from addEdges_spec[OF inj rn noself] obtain g' where
    g': "addEdges (idToNode a1) issues (an_g a1) = Inr g'" "g_nodes g' = g_nodes (an_g a1)"
      "set (g_edges g') = set (g_edges (an_g a1)) \<union>
             {(u, v) | u v i d. i \<in> set issues \<and> d \<in> set (Dependencies i) \<and>
                idToNode a1 (ID i) = Some u \<and> idToNode a1 (DependsOnID d) = Some v}"
    by blast
  have a: "a = a1\<lparr>an_g := g'\<rparr>" using assms a1(1) g'(1) by (simp add: NewAnalyzer_def)
  have "analyzer_inv a" using a1(2) g'(2) unfolding a analyzer_inv_def by simp
  then show ?thesis using a1 g' unfolding a by simp
qed

lemmas NewAnalyzer_eval =
  NewAnalyzer_def emptyAnalyzer_def NewDirectedGraph_def NewNode_def AddNode_def SetEdge_def

lemma ex_NewAnalyzer: "NewAnalyzer [ex_A, ex_B, ex_C] = Inr ex_analyzer"
  by (simp add: NewAnalyzer_eval ex_A_def ex_B_def ex_C_def ex_analyzer_def)




section \<open>Execution plan: the unblocks set\<close>

lemma map_filter_keys:
  assumes "\<forall>k i. im k = Some i \<longrightarrow> ID i = k"
  shows "map ID (List.map_filter im ks) = filter (\<lambda>k. im k \<noteq> None) ks"
  using assms by (induction ks) (auto split: option.splits)

lemma set_map_filter_dom:
  "set ks = dom im \<Longrightarrow> set (List.map_filter im ks) = ran im"
  by (auto simp: List.map_filter_def ran_def dom_def) force+

text \<open>
  C4. For every issue set (an analyzer built from an issue list), every issue identifier
  \<open>X\<close> and every order in which Go iterates the issue map, the result of
  \<open>computeUnblocks\<close> is sorted ascending, has no duplicates, and contains exactly the
  identifiers of the non-closed issues that have a blocking-type dependency on \<open>X\<close>
  and no blocking-type dependency on a different issue that exists and is not closed.
\<close>

theorem computeUnblocks_spec:
  assumes "NewAnalyzer issues = Inr a" and "distinct keys" and "set keys = dom (issueMap a)"
  shows "sorted (computeUnblocks a keys X) \<and> distinct (computeUnblocks a keys X) \<and>
    set (computeUnblocks a keys X) =
      {ID i | i. i \<in> ran (issueMap a) \<and> Status i \<noteq> StatusClosed \<and>
         (\<exists>d\<in>set (Dependencies i). Type d = DepBlocks \<and> DependsOnID d = X) \<and>
         \<not> (\<exists>d\<in>set (Dependencies i). Type d = DepBlocks \<and> DependsOnID d \<noteq> X \<and>
              (\<exists>b. issueMap a (DependsOnID d) = Some b \<and> Status b \<noteq> StatusClosed))}"
proof -
  let ?im = "issueMap a"
  let ?xs = "filter (wouldUnblock ?im X) (List.map_filter ?im keys)"
  have cu: "computeUnblocks a keys X = sort (map ID ?xs)"
    by (simp add: computeUnblocks_def unblocksLoop_eq)
  have "analyzer_inv a" using NewAnalyzer_Inr[OF assms(1)] by blast
  then have kc: "\<forall>k i. ?im k = Some i \<longrightarrow> ID i = k" unfolding analyzer_inv_def by blast
  have "distinct (map ID (List.map_filter ?im keys))"
    using map_filter_keys[OF kc, of keys] assms(2) by simp
  then have d: "distinct (map ID ?xs)" by (rule distinct_map_filter)
  have s: "set (map ID ?xs) = {ID i | i. i \<in> ran ?im \<and> wouldUnblock ?im X i}"
    using set_map_filter_dom[OF assms(3)] by auto
  have "sorted (computeUnblocks a keys X)" unfolding cu by simp
  moreover have "distinct (computeUnblocks a keys X)" unfolding cu using d by simp
  moreover have "set (computeUnblocks a keys X) = {ID i | i. i \<in> ran ?im \<and> wouldUnblock ?im X i}"
    unfolding cu using s by simp
  ultimately show ?thesis
    unfolding wouldUnblock_def otherOpenBlocker_def blocksOn_def by simp
qed

theorem computeUnblocks_spec_witness:
  "NewAnalyzer [ex_A, ex_B, ex_C] = Inr ex_analyzer \<and>
   sorted (computeUnblocks ex_analyzer [''C'', ''A'', ''B''] ''A'') \<and>
   distinct (computeUnblocks ex_analyzer [''C'', ''A'', ''B''] ''A'') \<and>
   computeUnblocks ex_analyzer [''C'', ''A'', ''B''] ''A'' = [''B''] \<and>
   computeUnblocks ex_analyzer [''C'', ''A'', ''B''] ''B'' = []"
proof -
  have k: "set [''C'', ''A'', ''B''] = dom (issueMap ex_analyzer)"
    by (auto simp: ex_analyzer_def)
  have d: "distinct [''C'', ''A'', ''B'']" by simp
  have "computeUnblocks ex_analyzer [''C'', ''A'', ''B''] ''A'' = [''B'']"
    by (simp add: computeUnblocks_def ex_analyzer_def ex_A_def ex_B_def ex_C_def
        StatusClosed_def DepBlocks_def)
  moreover have "computeUnblocks ex_analyzer [''C'', ''A'', ''B''] ''B'' = []"
    by (simp add: computeUnblocks_def ex_analyzer_def ex_A_def ex_B_def ex_C_def
        StatusClosed_def DepBlocks_def)
  ultimately show ?thesis
    using computeUnblocks_spec [OF ex_NewAnalyzer d k, of "''A''"] ex_NewAnalyzer by simp
qed

section \<open>Critical-path heights: results\<close>


lemma maxParentHeight_mono: "m \<le> m' \<Longrightarrow> maxParentHeight H ps m \<le> maxParentHeight H ps m'"
  by (induction ps arbitrary: m m') (auto split: option.splits)










section \<open>Critical-path heights: the scores\<close>











section \<open>Eigenvector centrality: results\<close>

lemma workLoop_no_edges:
  "g_edges g = [] \<Longrightarrow> workLoop g index vec ns work = work"
  by (induction ns arbitrary: work) (auto simp: To_def)

lemma fold_squares_zero: "fold (\<lambda>v s. s + v * v) (replicate k (0::real)) s = s"
  by (induction k arbitrary: s) auto

lemma powerIteration_no_edges:
  assumes "g_edges g = []"
  shows "powerIteration k g index nodeList vec = vec"
proof (cases k)
  case 0
  then show ?thesis by simp
next
  case (Suc k')
  have w: "workLoop g index vec nodeList (replicate (length vec) 0) = replicate (length vec) 0"
    using assms by (rule workLoop_no_edges)
  have s: "fold (\<lambda>v s. s + v * v) (replicate (length vec) (0::real)) 0 = 0"
    by (rule fold_squares_zero)
  show ?thesis unfolding Suc powerIteration.simps Let_def w s by simp
qed

lemma resLoop_replicate:
  "i + length ns \<le> k \<Longrightarrow>
   resLoop ns i (replicate k c) res = (\<lambda>x. if x \<in> set ns then Some c else res x)"
  by (induction ns arbitrary: i res) (auto simp: fun_eq_iff)

text \<open>
  C10. For every graph with at least one node and no edges, and every order in which
  the nodes are listed, \<open>computeEigenvector\<close> returns the score \<open>1/V\<close> for every
  node, and scores for the nodes only: the first product is the zero vector, the loop
  is left before the state is overwritten, and the uniform start vector is returned.
\<close>

theorem computeEigenvector_no_edges:
  assumes "g_edges g = []" and "g_nodes g \<noteq> []" and "set nodeList = set (g_nodes g)"
    and "distinct nodeList" and "distinct (g_nodes g)"
  shows "\<exists>res. computeEigenvector g nodeList = Some res \<and> dom res = set (g_nodes g) \<and>
           (\<forall>n\<in>set (g_nodes g). res n = Some (1 / real (length (g_nodes g))))"
proof -
  have len: "length nodeList = length (g_nodes g)"
    using assms(3,4,5) by (metis distinct_card)
  have ne: "nodeList \<noteq> []" using assms(2,3) by auto
  let ?c = "1 / real (length nodeList)"
  have "computeEigenvector g nodeList =
      Some (\<lambda>x. if x \<in> set nodeList then Some ?c else None)"
    using ne assms(1)
    by (simp add: computeEigenvector_def Let_def powerIteration_no_edges resLoop_replicate)
  then show ?thesis using len assms(3) by (auto simp: dom_def)
qed

theorem computeEigenvector_no_edges_witness:
  "\<exists>res. computeEigenvector ex_edgeless [2, 0, 3, 1] = Some res \<and>
         res 0 = Some (1 / 4) \<and> res 1 = Some (1 / 4) \<and> res 2 = Some (1 / 4) \<and>
         res 3 = Some (1 / 4) \<and> res 4 = None"
proof -
  have h: "g_edges ex_edgeless = []" "g_nodes ex_edgeless \<noteq> []"
    "set [2, 0, 3, 1] = set (g_nodes ex_edgeless)" "distinct [2, 0, 3, 1 :: int]"
    "distinct (g_nodes ex_edgeless)"
    by (auto simp: ex_edgeless_def)
  from computeEigenvector_no_edges [OF h] obtain res where
    r: "computeEigenvector ex_edgeless [2, 0, 3, 1] = Some res"
      "dom res = set (g_nodes ex_edgeless)"
      "\<forall>n\<in>set (g_nodes ex_edgeless). res n = Some (1 / real (length (g_nodes ex_edgeless)))"
    by blast
  have "4 \<notin> dom res" using r(2) by (simp add: ex_edgeless_def)
  then have "res 4 = None" by (simp add: domIff)
  with r(1,3) show ?thesis by (simp add: ex_edgeless_def)
qed

section \<open>File index: tombstones\<close>























section \<open>Impact analysis: the file list\<close>

lemma normalizeFilesLoop_spec:
  "distinct acc \<Longrightarrow> set acc \<subseteq> seen \<Longrightarrow> [] \<notin> set acc \<Longrightarrow>
   distinct (normalizeFilesLoop fs seen acc) \<and> [] \<notin> set (normalizeFilesLoop fs seen acc) \<and>
   set (normalizeFilesLoop fs seen acc) =
     set acc \<union> ((\<lambda>f. TrimSpace (normalizePath f)) ` set fs - {[]} - seen)"
proof (induction fs arbitrary: seen acc)
  case Nil
  then show ?case by simp
next
  case (Cons f fs)
  let ?norm = "TrimSpace (normalizePath f)"
  show ?case
  proof (cases "?norm = [] \<or> ?norm \<in> seen")
    case True
    from Cons.IH[OF Cons.prems] True show ?thesis by (auto simp: Let_def)
  next
    case False
    have "distinct (acc @ [?norm])" "set (acc @ [?norm]) \<subseteq> insert ?norm seen"
      "[] \<notin> set (acc @ [?norm])"
      using Cons.prems False by auto
    from Cons.IH[OF this] False show ?thesis by (auto simp: Let_def)
  qed
qed

text \<open>
  What the copy of src/unnamed/part\_009 does, for comparison with C7: the reported file
  list is the list of the trimmed normal forms of the input paths, without the empty ones
  and without duplicates.
\<close>

lemma ImpactAnalysis_part009_files:
  "distinct (res_Files (ImpactAnalysis_part009 fl keys now files)) \<and>
   [] \<notin> set (res_Files (ImpactAnalysis_part009 fl keys now files)) \<and>
   set (res_Files (ImpactAnalysis_part009 fl keys now files)) =
     (\<lambda>f. TrimSpace (normalizePath f)) ` set files - {[]}"
proof -
  have r: "res_Files (ImpactAnalysis_part009 fl keys now files) = normalizeFilesLoop files {} []"
    by (cases "scoreLoop now (int (length (normalizeFilesLoop files {} [])))
                 (map snd (filesLoop (LookupByFile_part009 fl keys) now
                    (normalizeFilesLoop files {} []) [])) ([], 0, 0, 0)")
       (auto simp: ImpactAnalysis_part009_def finishImpact_def Let_def)
  show ?thesis unfolding r using normalizeFilesLoop_spec[of "[]" "{}" files] by simp
qed

text \<open>
  C7 fails on the copy of src/pkg/correlation/file\_index.go. For the four input paths
  \<open>test.go\<close>, \<open>test.go\<close>, \<open>./test.go\<close> and the empty string, over an empty index,
  that copy reports the four paths as given and adds the 0.1 risk bump for more than three
  files; over the example index the two paths \<open>auth/token.go\<close> and
  \<open>./auth/token.go\<close> count as two overlap files of each bead. The copy of
  src/unnamed/part\_009 reports the single path \<open>test.go\<close>, adds no bump and counts one
  overlap file.
\<close>

theorem ImpactAnalysis_duplicates:
  "res_Files (ImpactAnalysis NewFileLookup_nil [] 6000 [''test.go'', ''test.go'', ''./test.go'', ''''])
     = [''test.go'', ''test.go'', ''./test.go'', ''''] \<and>
   RiskScore (ImpactAnalysis NewFileLookup_nil [] 6000 [''test.go'', ''test.go'', ''./test.go'', ''''])
     = 0.1 \<and>
   map (\<lambda>b. (ab_BeadID b, OverlapFiles b, OverlapCount b))
     (AffectedBeads (ImpactAnalysis ex_lookup [''auth/token.go''] 6000
                       [''auth/token.go'', ''./auth/token.go'']))
     = [(''I1'', [''auth/token.go'', ''auth/token.go''], 2),
        (''T'', [''auth/token.go'', ''auth/token.go''], 2),
        (''I2'', [''auth/token.go'', ''auth/token.go''], 2),
        (''I3'', [''auth/token.go'', ''auth/token.go''], 2)] \<and>
   res_Files (ImpactAnalysis_part009 NewFileLookup_nil [] 6000
                [''test.go'', ''test.go'', ''./test.go'', ''''])
     = [''test.go''] \<and>
   RiskScore (ImpactAnalysis_part009 NewFileLookup_nil [] 6000
                [''test.go'', ''test.go'', ''./test.go'', ''''])
     = 0 \<and>
   map (\<lambda>b. (ab_BeadID b, OverlapFiles b, OverlapCount b))
     (AffectedBeads (ImpactAnalysis_part009 ex_lookup [''auth/token.go''] 6000
                       [''auth/token.go'', ''./auth/token.go'']))
     = [(''I1'', [''auth/token.go''], 1), (''I2'', [''auth/token.go''], 1),
        (''I3'', [''auth/token.go''], 1)]"
  by (intro conjI; code_simp)

section \<open>Co-change matrix: symmetry and bound\<close>

text \<open>
  One commit with the file list \<open>fs\<close> adds, for two different paths, the product of
  their numbers of occurrences in \<open>fs\<close> to the matrix entry, and the number of
  occurrences of a path to its commit count.
\<close>

lemma matrix_get_inc:
  "matrix_get (matrix_inc M x y) a b = matrix_get M a b + (if x = a \<and> y = b then 1 else 0)"
  by (auto simp: matrix_inc_def matrix_get_def count_get_def Let_def split: option.splits)

lemma matrix_get_pairInner:
  "matrix_get (pairInner fs i js M) a b =
     matrix_get M a b
     + (if fs ! i = a then int (length (filter (\<lambda>j. j \<noteq> i \<and> fs ! j = b) js)) else 0)"
  by (induction js arbitrary: M) (auto simp: matrix_get_inc)

lemma matrix_get_pairOuter:
  "matrix_get (pairOuter fs ixs M) a b =
     matrix_get M a b
     + (\<Sum>i\<leftarrow>ixs. if fs ! i = a
                   then int (length (filter (\<lambda>j. j \<noteq> i \<and> fs ! j = b) [0..<length fs]))
                   else 0)"
  by (induction ixs arbitrary: M) (auto simp: matrix_get_pairInner)

lemma length_filter_nth:
  "length (filter (\<lambda>j. fs ! j = b) [0..<length fs]) = count_list fs b"
proof -
  have "filter (\<lambda>x. x = b) (map ((!) fs) [0..<length fs])
        = map ((!) fs) (filter (\<lambda>j. fs ! j = b) [0..<length fs])"
    by (simp add: filter_map comp_def)
  then have "length (filter (\<lambda>j. fs ! j = b) [0..<length fs]) = length (filter (\<lambda>x. x = b) fs)"
    by (metis length_map map_nth)
  moreover have "length (filter (\<lambda>x. x = b) fs) = count_list fs b"
    by (induction fs) auto
  ultimately show ?thesis by simp
qed

lemma sum_list_if_const:
  "(\<Sum>i\<leftarrow>ixs. if P i then (c::int) else 0) = int (length (filter P ixs)) * c"
  by (induction ixs) (auto simp: algebra_simps)

lemma matrix_get_pairs:
  assumes "a \<noteq> b"
  shows "matrix_get (pairOuter fs [0..<length fs] M) a b =
           matrix_get M a b + int (count_list fs a) * int (count_list fs b)"
proof -
  have "(\<Sum>i\<leftarrow>[0..<length fs]. if fs ! i = a
                   then int (length (filter (\<lambda>j. j \<noteq> i \<and> fs ! j = b) [0..<length fs]))
                   else 0)
        = (\<Sum>i\<leftarrow>[0..<length fs]. if fs ! i = a then int (count_list fs b) else 0)"
  proof (rule arg_cong[where f = sum_list], rule map_cong[OF refl])
    fix i assume "i \<in> set [0..<length fs]"
    show "(if fs ! i = a
           then int (length (filter (\<lambda>j. j \<noteq> i \<and> fs ! j = b) [0..<length fs])) else 0)
          = (if fs ! i = a then int (count_list fs b) else 0)"
    proof (cases "fs ! i = a")
      case True
      have "filter (\<lambda>j. j \<noteq> i \<and> fs ! j = b) [0..<length fs]
            = filter (\<lambda>j. fs ! j = b) [0..<length fs]"
        using True assms by (intro filter_cong) auto
      then show ?thesis using True by (simp add: length_filter_nth)
    next
      case False then show ?thesis by simp
    qed
  qed
  also have "\<dots> = int (length (filter (\<lambda>i. fs ! i = a) [0..<length fs])) * int (count_list fs b)"
    by (rule sum_list_if_const)
  also have "\<dots> = int (count_list fs a) * int (count_list fs b)"
    by (simp add: length_filter_nth)
  finally show ?thesis by (simp add: matrix_get_pairOuter)
qed

lemma count_get_countLoop:
  "count_get (countLoop fs c) a = count_get c a + int (count_list fs a)"
  by (induction fs arbitrary: c) (auto simp: count_get_def)

lemma commitLoop_symmetric:
  "coChange_symmetric (fst st) \<Longrightarrow> coChange_symmetric (fst (commitLoop commits st))"
proof (induction commits st rule: commitLoop.induct)
  case (1 st)
  then show ?case by simp
next
  case (2 commit commits matrix processedCommits)
  show ?case
  proof (cases "SHA commit \<in> processedCommits")
    case True
    with 2 show ?thesis by simp
  next
    case False
    let ?fs = "commitFileList (Files commit)"
    let ?m = "matrix\<lparr>
              Matrix := pairOuter ?fs [0..<length ?fs] (Matrix matrix),
              FileCommitCounts := countLoop ?fs (FileCommitCounts matrix),
              CommitFiles := (CommitFiles matrix)(ShortSHA commit \<mapsto> ?fs)\<rparr>"
    have "coChange_symmetric ?m"
      unfolding coChange_symmetric_def
    proof (intro allI)
      fix a b
      show "matrix_get (Matrix ?m) a b = matrix_get (Matrix ?m) b a"
      proof (cases "a = b")
        case True then show ?thesis by simp
      next
        case ne: False
        then have ne': "b \<noteq> a" by simp
        from "2.prems" have "matrix_get (Matrix matrix) a b = matrix_get (Matrix matrix) b a"
          by (simp add: coChange_symmetric_def)
        then show ?thesis
          by (simp add: matrix_get_pairs[OF ne] matrix_get_pairs[OF ne'] mult.commute)
      qed
    qed
    then have "coChange_symmetric (fst (commitLoop commits (?m, insert (SHA commit) processedCommits)))"
      using "2.IH"(2)[OF False refl refl] by simp
    then show ?thesis using False by (simp add: Let_def)
  qed
qed

lemma historyLoop_symmetric:
  "coChange_symmetric (fst st) \<Longrightarrow> coChange_symmetric (fst (historyLoop hs ks st))"
  by (induction ks arbitrary: st) (auto simp: commitLoop_symmetric split: option.splits)

text \<open>
  The matrix is symmetric for every report and every iteration order of the histories.
\<close>

lemma BuildCoChangeMatrix_symmetric:
  "matrix_get (Matrix (BuildCoChangeMatrix report keys)) a b
   = matrix_get (Matrix (BuildCoChangeMatrix report keys)) b a"
proof -
  have e: "coChange_symmetric emptyCoChangeMatrix"
    by (simp add: coChange_symmetric_def emptyCoChangeMatrix_def matrix_get_def)
  have "coChange_symmetric (BuildCoChangeMatrix report keys)"
  proof (cases report)
    case None
    with e show ?thesis by (simp add: BuildCoChangeMatrix_def)
  next
    case (Some r)
    have "coChange_symmetric (fst (historyLoop (Histories r) keys (emptyCoChangeMatrix, {})))"
      by (rule historyLoop_symmetric) (simp add: e)
    with Some show ?thesis by (simp add: BuildCoChangeMatrix_def)
  qed
  then show ?thesis by (simp add: coChange_symmetric_def)
qed

lemma count_list_distinct: "distinct fs \<Longrightarrow> count_list fs a \<le> 1"
  by (induction fs) (auto simp: count_list_0_iff)

lemma commitLoop_bounded:
  "coChange_bounded (fst st) \<Longrightarrow>
   \<forall>c\<in>set commits. distinct (commitFileList (Files c)) \<Longrightarrow>
   coChange_bounded (fst (commitLoop commits st))"
proof (induction commits st rule: commitLoop.induct)
  case (1 st)
  then show ?case by simp
next
  case (2 commit commits matrix processedCommits)
  from "2.prems"(2) have dc: "\<forall>c\<in>set commits. distinct (commitFileList (Files c))" by simp
  show ?case
  proof (cases "SHA commit \<in> processedCommits")
    case True
    with 2 dc show ?thesis by simp
  next
    case False
    let ?fs = "commitFileList (Files commit)"
    let ?m = "matrix\<lparr>
              Matrix := pairOuter ?fs [0..<length ?fs] (Matrix matrix),
              FileCommitCounts := countLoop ?fs (FileCommitCounts matrix),
              CommitFiles := (CommitFiles matrix)(ShortSHA commit \<mapsto> ?fs)\<rparr>"
    from "2.prems"(2) have d: "distinct ?fs" by simp
    have "coChange_bounded ?m"
      unfolding coChange_bounded_def
    proof (intro allI impI)
      fix a b :: string
      assume ne: "a \<noteq> b"
      from "2.prems"(1) ne have old: "matrix_get (Matrix matrix) a b
          \<le> min (count_get (FileCommitCounts matrix) a) (count_get (FileCommitCounts matrix) b)"
        by (simp add: coChange_bounded_def)
      have ca: "count_list ?fs a \<le> 1" using d by (rule count_list_distinct)
      have cb: "count_list ?fs b \<le> 1" using d by (rule count_list_distinct)
      have "int (count_list ?fs a) * int (count_list ?fs b)
            \<le> min (int (count_list ?fs a)) (int (count_list ?fs b))"
      proof -
        from ca have "count_list ?fs a = 0 \<or> count_list ?fs a = 1" by linarith
        moreover from cb have "count_list ?fs b = 0 \<or> count_list ?fs b = 1" by linarith
        ultimately show ?thesis by auto
      qed
      with old show "matrix_get (Matrix ?m) a b
          \<le> min (count_get (FileCommitCounts ?m) a) (count_get (FileCommitCounts ?m) b)"
        by (simp add: matrix_get_pairs[OF ne] count_get_countLoop)
    qed
    then have "coChange_bounded (fst (commitLoop commits (?m, insert (SHA commit) processedCommits)))"
      using "2.IH"(2)[OF False refl refl] dc by simp
    then show ?thesis using False by (simp add: Let_def)
  qed
qed

lemma historyLoop_bounded:
  "coChange_bounded (fst st) \<Longrightarrow>
   \<forall>h\<in>ran hs. \<forall>c\<in>set (Commits h). distinct (commitFileList (Files c)) \<Longrightarrow>
   coChange_bounded (fst (historyLoop hs ks st))"
proof (induction ks arbitrary: st)
  case Nil
  then show ?case by simp
next
  case (Cons k ks)
  show ?case
  proof (cases "hs k")
    case None
    with Cons show ?thesis by simp
  next
    case (Some h)
    then have "h \<in> ran hs" by (auto simp: ran_def)
    with Cons.prems(2) have "\<forall>c\<in>set (Commits h). distinct (commitFileList (Files c))" by blast
    with Cons.prems(1) have "coChange_bounded (fst (commitLoop (Commits h) st))"
      by (rule commitLoop_bounded)
    then have "coChange_bounded (fst (historyLoop hs ks (commitLoop (Commits h) st)))"
      using Cons.IH Cons.prems(2) by blast
    with Some show ?thesis by simp
  qed
qed

text \<open>
  When no commit of the report lists the same normalized path twice, every entry of two
  different files is bounded by both commit counts.
\<close>

lemma BuildCoChangeMatrix_bound:
  assumes "\<forall>h\<in>ran (Histories r). \<forall>c\<in>set (Commits h). distinct (commitFileList (Files c))"
    and "a \<noteq> b"
  shows "matrix_get (Matrix (BuildCoChangeMatrix (Some r) keys)) a b
         \<le> min (count_get (FileCommitCounts (BuildCoChangeMatrix (Some r) keys)) a)
               (count_get (FileCommitCounts (BuildCoChangeMatrix (Some r) keys)) b)"
proof -
  have e: "coChange_bounded (fst (emptyCoChangeMatrix, {} :: string set))"
    by (simp add: coChange_bounded_def emptyCoChangeMatrix_def matrix_get_def count_get_def)
  have "coChange_bounded (fst (historyLoop (Histories r) keys (emptyCoChangeMatrix, {})))"
    using e assms(1) by (rule historyLoop_bounded)
  then show ?thesis using assms(2) by (simp add: BuildCoChangeMatrix_def coChange_bounded_def)
qed

section \<open>Co-change matrix: duplicate paths in one commit\<close>

lemmas BuildCoChangeMatrix_eval =
  BuildCoChangeMatrix_def emptyCoChangeMatrix_def matrix_inc_def matrix_get_def count_get_def
  normalizePath_eval

text \<open>
  C6 fails on the bound (the symmetry holds throughout, as shown above). A single commit
  whose file list names \<open>x.go\<close> twice (as \<open>x.go\<close> and \<open>./x.go\<close>) and \<open>y.go\<close>
  once is counted once per occurrence: the matrix entries for the pair are 2 in both
  directions, and the commit count of \<open>y.go\<close> is 1.
\<close>

theorem coChange_duplicate_paths:
  "matrix_get (Matrix (BuildCoChangeMatrix (Some ex_dup_report) [''bv-1''])) ''x.go'' ''y.go'' = 2 \<and>
   matrix_get (Matrix (BuildCoChangeMatrix (Some ex_dup_report) [''bv-1''])) ''y.go'' ''x.go'' = 2 \<and>
   count_get (FileCommitCounts (BuildCoChangeMatrix (Some ex_dup_report) [''bv-1''])) ''x.go'' = 2 \<and>
   count_get (FileCommitCounts (BuildCoChangeMatrix (Some ex_dup_report) [''bv-1''])) ''y.go'' = 1 \<and>
   \<not> matrix_get (Matrix (BuildCoChangeMatrix (Some ex_dup_report) [''bv-1''])) ''x.go'' ''y.go''
       \<le> min (count_get (FileCommitCounts (BuildCoChangeMatrix (Some ex_dup_report) [''bv-1''])) ''x.go'')
             (count_get (FileCommitCounts (BuildCoChangeMatrix (Some ex_dup_report) [''bv-1''])) ''y.go'')"
  by (simp add: BuildCoChangeMatrix_eval ex_dup_report_def ex_dup_commit_def Let_def)

section \<open>Approximate betweenness: sampling\<close>




section \<open>Approximate betweenness: the search ends\<close>










section \<open>Approximate betweenness: the result\<close>







end
